theory Spec2Isabelle
  imports Main "HOL-Library.Word" "HOL-Library.Monad_Syntax"
begin

unbundle bit_operations_syntax

section \<open>The allocator of mm.c as a state-passing program\<close>

text \<open>
  The allocator is built for a 32-bit target: headers, footers and free-list links are
  4-byte words, and \<^verbatim>\<open>SET_PTR\<close> stores a pointer through an \<^verbatim>\<open>unsigned int\<close>.
  Pointers, \<^verbatim>\<open>size_t\<close> and \<^verbatim>\<open>int\<close> are therefore all \<^typ>\<open>32 word\<close>; \<^verbatim>\<open>int\<close>
  values are read with \<^const>\<open>sint\<close> where the source compares them.

  A call returns \<^term>\<open>Some\<close> of its result and the new state.  \<^term>\<open>None\<close> stands for a
  call that does not return: it dereferences an address outside the arena of the heap
  provider (undefined behaviour in C), or it walks a cyclic free list for ever.
\<close>

type_synonym word32 = "32 word"

subsection \<open>Constants and arithmetic helpers\<close>

definition WSIZE :: word32 where "WSIZE = 4"
definition DSIZE :: word32 where "DSIZE = 8"
definition INITCHUNKSIZE :: word32 where "INITCHUNKSIZE = push_bit 6 1"
definition CHUNKSIZE :: word32 where "CHUNKSIZE = push_bit 12 1"
definition LISTLIMIT :: nat where "LISTLIMIT = 20"
definition REALLOC_BUFFER :: word32 where "REALLOC_BUFFER = push_bit 7 1"

definition ALIGN :: "word32 \<Rightarrow> word32" where
  "ALIGN n = (n + 7) AND NOT 7"

text \<open>\<^verbatim>\<open>MAX\<close> and \<^verbatim>\<open>MIN\<close> take and return \<^verbatim>\<open>int\<close>: the comparison is signed.\<close>

definition MAX_int :: "word32 \<Rightarrow> word32 \<Rightarrow> word32" where
  "MAX_int x y = (if sint x > sint y then x else y)"

definition MIN_int :: "word32 \<Rightarrow> word32 \<Rightarrow> word32" where
  "MIN_int x y = (if sint x < sint y then x else y)"

definition PACK :: "word32 \<Rightarrow> word32 \<Rightarrow> word32" where
  "PACK sz alloc = sz OR (alloc AND 1)"

subsection \<open>The state: heap memory, the heap provider, the list directory\<close>

text \<open>
  \<open>mem s a\<close> is the little-endian word held by the four bytes at the 4-aligned address
  \<open>a\<close>.  \<open>mem_start_brk\<close>, \<open>mem_brk\<close> and \<open>mem_max_addr\<close> are the heap provider's
  variables; \<open>segregated_free_lists\<close> is the global array of list heads (indices below
  \<open>LISTLIMIT\<close> are used).
\<close>

record heap =
  mem :: "word32 \<Rightarrow> word32"
  mem_start_brk :: word32
  mem_brk :: word32
  mem_max_addr :: word32
  segregated_free_lists :: "nat \<Rightarrow> word32"

text \<open>
  Modelled from the spec: \<^verbatim>\<open>mem_sbrk\<close> of memlib.c, which is not among the sources.
  The spec's heap-extend primitive returns the start of \<open>n\<close> newly added bytes at the top
  of the heap, or fails and leaves the heap unchanged.  As in the course's memlib it takes
  an \<^verbatim>\<open>int\<close>, fails on a negative increment or when the arena is exhausted, and reports
  failure as \<^verbatim>\<open>(void *)-1\<close>.
\<close>

definition mem_sbrk :: "heap \<Rightarrow> word32 \<Rightarrow> word32 \<times> heap" where
  "mem_sbrk s incr =
     (if sint incr < 0 \<or> unat (mem_brk s) + unat incr > unat (mem_max_addr s)
      then (- 1, s)
      else (mem_brk s, s\<lparr>mem_brk := mem_brk s + incr\<rparr>))"

text \<open>A word access is defined when its four bytes lie in the arena.\<close>

definition valid_word :: "heap \<Rightarrow> word32 \<Rightarrow> bool" where
  "valid_word s p \<longleftrightarrow>
     unat (mem_start_brk s) \<le> unat p \<and> unat p + 4 \<le> unat (mem_max_addr s)"

definition valid_byte :: "heap \<Rightarrow> word32 \<Rightarrow> bool" where
  "valid_byte s p \<longleftrightarrow> unat (mem_start_brk s) \<le> unat p \<and> unat p < unat (mem_max_addr s)"

subsection \<open>Word access\<close>

text \<open>
  The macros dereference \<^verbatim>\<open>unsigned int *\<close> at any address, aligned or not, and the 32-bit
  x86 target performs the access.  At an aligned address it is the word stored there; at
  an address \<open>a + k\<close> with \<open>a\<close> aligned and \<open>k\<close> from 1 to 3 it is made of the upper
  \<open>4 - k\<close> bytes of the word at \<open>a\<close> and the lower \<open>k\<close> bytes of the word at \<open>a + 4\<close>.
\<close>

definition load_word :: "(word32 \<Rightarrow> word32) \<Rightarrow> word32 \<Rightarrow> word32" where
  "load_word m p =
     (let a = p AND NOT 3; sh = 8 * unat (p AND 3)
      in if sh = 0 then m a
         else drop_bit sh (m a) OR push_bit (32 - sh) (m (a + 4)))"

definition store_word :: "(word32 \<Rightarrow> word32) \<Rightarrow> word32 \<Rightarrow> word32 \<Rightarrow> word32 \<Rightarrow> word32" where
  "store_word m p val =
     (let a = p AND NOT 3; sh = 8 * unat (p AND 3)
      in if sh = 0 then m(a := val)
         else m(a := take_bit sh (m a) OR push_bit sh val,
                a + 4 := push_bit sh (drop_bit sh (m (a + 4))) OR drop_bit (32 - sh) val))"

definition GET :: "heap \<Rightarrow> word32 \<Rightarrow> word32 option" where
  "GET s p = (if valid_word s p then Some (load_word (mem s) p) else None)"

definition PUT_NOTAG :: "heap \<Rightarrow> word32 \<Rightarrow> word32 \<Rightarrow> heap option" where
  "PUT_NOTAG s p val =
     (if valid_word s p then Some (s\<lparr>mem := store_word (mem s) p val\<rparr>) else None)"

definition GET_SIZE :: "heap \<Rightarrow> word32 \<Rightarrow> word32 option" where
  "GET_SIZE s p = do { v \<leftarrow> GET s p; Some (v AND NOT 7) }"

definition GET_ALLOC :: "heap \<Rightarrow> word32 \<Rightarrow> word32 option" where
  "GET_ALLOC s p = do { v \<leftarrow> GET s p; Some (v AND 1) }"

definition GET_TAG :: "heap \<Rightarrow> word32 \<Rightarrow> word32 option" where
  "GET_TAG s p = do { v \<leftarrow> GET s p; Some (v AND 2) }"

text \<open>The two tag helpers compute a word and return it; neither stores anything.\<close>

definition REMOVE_RATAG :: "heap \<Rightarrow> word32 \<Rightarrow> word32 option" where
  "REMOVE_RATAG s p = do { v \<leftarrow> GET s p; Some (v AND 2) }"

definition SET_RATAG :: "heap \<Rightarrow> word32 \<Rightarrow> word32 option" where
  "SET_RATAG s p = do { v \<leftarrow> GET s p; Some (v OR 2) }"

text \<open>\<^verbatim>\<open>PUT\<close> keeps the reallocation bit already stored at the address.\<close>

definition PUT :: "heap \<Rightarrow> word32 \<Rightarrow> word32 \<Rightarrow> heap option" where
  "PUT s p val = do { t \<leftarrow> GET_TAG s p; PUT_NOTAG s p (val OR t) }"

definition SET_PTR :: "heap \<Rightarrow> word32 \<Rightarrow> word32 \<Rightarrow> heap option" where
  "SET_PTR s p ptr =
     (if valid_word s p then Some (s\<lparr>mem := store_word (mem s) p ptr\<rparr>) else None)"

subsection \<open>Block geometry\<close>

definition HDRP :: "word32 \<Rightarrow> word32" where
  "HDRP bp = bp - WSIZE"

definition FTRP :: "heap \<Rightarrow> word32 \<Rightarrow> word32 option" where
  "FTRP s bp = do { sz \<leftarrow> GET_SIZE s (HDRP bp); Some (bp + sz - DSIZE) }"

definition NEXT_BLKP :: "heap \<Rightarrow> word32 \<Rightarrow> word32 option" where
  "NEXT_BLKP s ptr = do { sz \<leftarrow> GET_SIZE s (ptr - WSIZE); Some (ptr + sz) }"

definition PREV_BLKP :: "heap \<Rightarrow> word32 \<Rightarrow> word32 option" where
  "PREV_BLKP s ptr = do { sz \<leftarrow> GET_SIZE s (ptr - DSIZE); Some (ptr - sz) }"

definition PRED_PTR :: "word32 \<Rightarrow> word32" where
  "PRED_PTR ptr = ptr"

definition SUCC_PTR :: "word32 \<Rightarrow> word32" where
  "SUCC_PTR ptr = ptr + WSIZE"

definition PRED :: "heap \<Rightarrow> word32 \<Rightarrow> word32 option" where
  "PRED s ptr = GET s ptr"

definition SUCC :: "heap \<Rightarrow> word32 \<Rightarrow> word32 option" where
  "SUCC s ptr = GET s (SUCC_PTR ptr)"

definition set_list :: "heap \<Rightarrow> nat \<Rightarrow> word32 \<Rightarrow> heap" where
  "set_list s list ptr = s\<lparr>segregated_free_lists := (segregated_free_lists s)(list := ptr)\<rparr>"

subsection \<open>Size classes and list insertion and deletion\<close>

text \<open>
  The loop that selects the list shifts \<^verbatim>\<open>size\<close> as it counts; the shifted \<^verbatim>\<open>size\<close> is what
  \<^verbatim>\<open>insert_node\<close> compares afterwards, so the loop returns both.
\<close>

function select_list :: "nat \<Rightarrow> word32 \<Rightarrow> nat \<times> word32" where
  "select_list list sz =
     (if list < LISTLIMIT - 1 \<and> sz > 1 then select_list (list + 1) (drop_bit 1 sz)
      else (list, sz))"
  by pat_completeness auto
termination
  by (relation "measure (\<lambda>(list, sz). LISTLIMIT - list)") auto

text \<open>
  A walk along \<^verbatim>\<open>PRED\<close> links reads the heap and changes nothing, so a walk of more
  than \<open>2 ^ 32\<close> steps has met some pointer twice and never ends: the bound on the steps
  below cuts off exactly the walks that do not return.
\<close>

definition walk_bound :: nat where
  "walk_bound = 2 ^ 32"

fun insert_search :: "nat \<Rightarrow> heap \<Rightarrow> word32 \<Rightarrow> word32 \<Rightarrow> word32 \<Rightarrow> (word32 \<times> word32) option" where
  "insert_search 0 s sz search_ptr insert_ptr = None"
| "insert_search (Suc n) s sz search_ptr insert_ptr =
     (if search_ptr \<noteq> 0 then do {
        hsz \<leftarrow> GET_SIZE s (HDRP search_ptr);
        if sz > hsz then do {
          p \<leftarrow> PRED s search_ptr;
          insert_search n s sz p search_ptr
        } else Some (search_ptr, insert_ptr)
      } else Some (search_ptr, insert_ptr))"

definition insert_node :: "heap \<Rightarrow> word32 \<Rightarrow> word32 \<Rightarrow> heap option" where
  "insert_node s ptr size0 =
     (let (list, sz) = select_list 0 size0 in do {
        (search_ptr, insert_ptr) \<leftarrow>
          insert_search walk_bound s sz (segregated_free_lists s list) 0;
        if search_ptr \<noteq> 0 then
          if insert_ptr \<noteq> 0 then do {
            s \<leftarrow> SET_PTR s (PRED_PTR ptr) search_ptr;
            s \<leftarrow> SET_PTR s (SUCC_PTR search_ptr) ptr;
            s \<leftarrow> SET_PTR s (SUCC_PTR ptr) insert_ptr;
            SET_PTR s (PRED_PTR insert_ptr) ptr
          } else do {
            s \<leftarrow> SET_PTR s (PRED_PTR ptr) search_ptr;
            s \<leftarrow> SET_PTR s (SUCC_PTR search_ptr) ptr;
            s \<leftarrow> SET_PTR s (SUCC_PTR ptr) 0;
            Some (set_list s list ptr)
          }
        else
          if insert_ptr \<noteq> 0 then do {
            s \<leftarrow> SET_PTR s (PRED_PTR ptr) 0;
            s \<leftarrow> SET_PTR s (SUCC_PTR ptr) insert_ptr;
            SET_PTR s (PRED_PTR insert_ptr) ptr
          } else do {
            s \<leftarrow> SET_PTR s (PRED_PTR ptr) 0;
            s \<leftarrow> SET_PTR s (SUCC_PTR ptr) 0;
            Some (set_list s list ptr)
          }
      })"

definition delete_node :: "heap \<Rightarrow> word32 \<Rightarrow> heap option" where
  "delete_node s ptr = do {
     size0 \<leftarrow> GET_SIZE s (HDRP ptr);
     let (list, sz) = select_list 0 size0;
     pred \<leftarrow> PRED s ptr;
     if pred \<noteq> 0 then do {
       succ \<leftarrow> SUCC s ptr;
       if succ \<noteq> 0 then do {
         pred \<leftarrow> PRED s ptr;
         succ \<leftarrow> SUCC s ptr;
         s \<leftarrow> SET_PTR s (SUCC_PTR pred) succ;
         succ \<leftarrow> SUCC s ptr;
         pred \<leftarrow> PRED s ptr;
         SET_PTR s (PRED_PTR succ) pred
       } else do {
         pred \<leftarrow> PRED s ptr;
         s \<leftarrow> SET_PTR s (SUCC_PTR pred) 0;
         pred \<leftarrow> PRED s ptr;
         Some (set_list s list pred)
       }
     } else do {
       succ \<leftarrow> SUCC s ptr;
       if succ \<noteq> 0 then do {
         succ \<leftarrow> SUCC s ptr;
         SET_PTR s (PRED_PTR succ) 0
       } else Some (set_list s list 0)
     }
   }"

subsection \<open>Coalescing and placement\<close>

definition coalesce :: "heap \<Rightarrow> word32 \<Rightarrow> (word32 \<times> heap) option" where
  "coalesce s ptr = do {
     prev \<leftarrow> PREV_BLKP s ptr;
     prev_alloc \<leftarrow> GET_ALLOC s (HDRP prev);
     next \<leftarrow> NEXT_BLKP s ptr;
     next_alloc \<leftarrow> GET_ALLOC s (HDRP next);
     sz \<leftarrow> GET_SIZE s (HDRP ptr);
     prev \<leftarrow> PREV_BLKP s ptr;
     tag \<leftarrow> GET_TAG s (HDRP prev);
     let prev_alloc = (if tag \<noteq> 0 then 1 else prev_alloc);
     if prev_alloc \<noteq> 0 \<and> next_alloc \<noteq> 0 then Some (ptr, s)
     else do {
       (ptr, sz, s) \<leftarrow>
         (if prev_alloc \<noteq> 0 \<and> next_alloc = 0 then do {
            s \<leftarrow> delete_node s ptr;
            next \<leftarrow> NEXT_BLKP s ptr;
            s \<leftarrow> delete_node s next;
            next \<leftarrow> NEXT_BLKP s ptr;
            nsz \<leftarrow> GET_SIZE s (HDRP next);
            let sz = sz + nsz;
            s \<leftarrow> PUT s (HDRP ptr) (PACK sz 0);
            ftr \<leftarrow> FTRP s ptr;
            s \<leftarrow> PUT s ftr (PACK sz 0);
            Some (ptr, sz, s)
          } else if prev_alloc = 0 \<and> next_alloc \<noteq> 0 then do {
            s \<leftarrow> delete_node s ptr;
            prev \<leftarrow> PREV_BLKP s ptr;
            s \<leftarrow> delete_node s prev;
            prev \<leftarrow> PREV_BLKP s ptr;
            psz \<leftarrow> GET_SIZE s (HDRP prev);
            let sz = sz + psz;
            ftr \<leftarrow> FTRP s ptr;
            s \<leftarrow> PUT s ftr (PACK sz 0);
            prev \<leftarrow> PREV_BLKP s ptr;
            s \<leftarrow> PUT s (HDRP prev) (PACK sz 0);
            prev \<leftarrow> PREV_BLKP s ptr;
            Some (prev, sz, s)
          } else do {
            s \<leftarrow> delete_node s ptr;
            prev \<leftarrow> PREV_BLKP s ptr;
            s \<leftarrow> delete_node s prev;
            next \<leftarrow> NEXT_BLKP s ptr;
            s \<leftarrow> delete_node s next;
            prev \<leftarrow> PREV_BLKP s ptr;
            psz \<leftarrow> GET_SIZE s (HDRP prev);
            next \<leftarrow> NEXT_BLKP s ptr;
            nsz \<leftarrow> GET_SIZE s (HDRP next);
            let sz = sz + (psz + nsz);
            prev \<leftarrow> PREV_BLKP s ptr;
            s \<leftarrow> PUT s (HDRP prev) (PACK sz 0);
            next \<leftarrow> NEXT_BLKP s ptr;
            ftr \<leftarrow> FTRP s next;
            s \<leftarrow> PUT s ftr (PACK sz 0);
            prev \<leftarrow> PREV_BLKP s ptr;
            Some (prev, sz, s)
          });
       s \<leftarrow> insert_node s ptr sz;
       Some (ptr, s)
     }
   }"

definition place :: "heap \<Rightarrow> word32 \<Rightarrow> word32 \<Rightarrow> (word32 \<times> heap) option" where
  "place s ptr asize = do {
     ptr_size \<leftarrow> GET_SIZE s (HDRP ptr);
     let remainder = ptr_size - asize;
     s \<leftarrow> delete_node s ptr;
     if remainder \<le> DSIZE * 2 then do {
       s \<leftarrow> PUT s (HDRP ptr) (PACK ptr_size 1);
       ftr \<leftarrow> FTRP s ptr;
       s \<leftarrow> PUT s ftr (PACK ptr_size 1);
       Some (ptr, s)
     } else if asize \<ge> 100 then do {
       s \<leftarrow> PUT s (HDRP ptr) (PACK remainder 0);
       ftr \<leftarrow> FTRP s ptr;
       s \<leftarrow> PUT s ftr (PACK remainder 0);
       next \<leftarrow> NEXT_BLKP s ptr;
       s \<leftarrow> PUT_NOTAG s (HDRP next) (PACK asize 1);
       next \<leftarrow> NEXT_BLKP s ptr;
       ftr \<leftarrow> FTRP s next;
       s \<leftarrow> PUT_NOTAG s ftr (PACK asize 1);
       s \<leftarrow> insert_node s ptr remainder;
       next \<leftarrow> NEXT_BLKP s ptr;
       Some (next, s)
     } else do {
       s \<leftarrow> PUT s (HDRP ptr) (PACK asize 1);
       ftr \<leftarrow> FTRP s ptr;
       s \<leftarrow> PUT s ftr (PACK asize 1);
       next \<leftarrow> NEXT_BLKP s ptr;
       s \<leftarrow> PUT_NOTAG s (HDRP next) (PACK remainder 0);
       next \<leftarrow> NEXT_BLKP s ptr;
       ftr \<leftarrow> FTRP s next;
       s \<leftarrow> PUT_NOTAG s ftr (PACK remainder 0);
       next \<leftarrow> NEXT_BLKP s ptr;
       s \<leftarrow> insert_node s next remainder;
       Some (ptr, s)
     }
   }"

subsection \<open>Heap extension and initialisation\<close>

text \<open>\<^verbatim>\<open>extend_heap\<close> returns \<^verbatim>\<open>NULL\<close>, the word 0, when the provider refuses.\<close>

definition extend_heap :: "heap \<Rightarrow> word32 \<Rightarrow> (word32 \<times> heap) option" where
  "extend_heap s n =
     (let asize = ALIGN n; (ptr, s) = mem_sbrk s asize in
      if ptr = - 1 then Some (0, s)
      else do {
        s \<leftarrow> PUT_NOTAG s (HDRP ptr) (PACK asize 0);
        ftr \<leftarrow> FTRP s ptr;
        s \<leftarrow> PUT_NOTAG s ftr (PACK asize 0);
        next \<leftarrow> NEXT_BLKP s ptr;
        s \<leftarrow> PUT_NOTAG s (HDRP next) (PACK 0 1);
        s \<leftarrow> insert_node s ptr asize;
        coalesce s ptr
      })"

text \<open>\<^verbatim>\<open>mm_init\<close> returns the \<^verbatim>\<open>int\<close> 0 on success and -1 on failure.\<close>

definition mm_init :: "heap \<Rightarrow> (word32 \<times> heap) option" where
  "mm_init s =
     (let s = s\<lparr>segregated_free_lists :=
                 fold (\<lambda>list lists. lists(list := 0)) [0..<LISTLIMIT] (segregated_free_lists s)\<rparr>;
          (heap_start, s) = mem_sbrk s (4 * WSIZE) in
      if heap_start = - 1 then Some (- 1, s)
      else do {
        s \<leftarrow> PUT_NOTAG s heap_start 0;
        s \<leftarrow> PUT_NOTAG s (heap_start + 1 * WSIZE) (PACK DSIZE 1);
        s \<leftarrow> PUT_NOTAG s (heap_start + 2 * WSIZE) (PACK DSIZE 1);
        s \<leftarrow> PUT_NOTAG s (heap_start + 3 * WSIZE) (PACK 0 1);
        (ptr, s) \<leftarrow> extend_heap s INITCHUNKSIZE;
        if ptr = 0 then Some (- 1, s) else Some (0, s)
      })"

subsection \<open>Allocate\<close>

text \<open>
  The adjusted block size: room for the boundary tags, rounded up to the alignment.
  \<^verbatim>\<open>mm_malloc\<close> and \<^verbatim>\<open>mm_realloc\<close> both compute it, with the same lines.
\<close>

definition adjusted_size :: "word32 \<Rightarrow> word32" where
  "adjusted_size n = (if n \<le> DSIZE then 2 * DSIZE else ALIGN (n + DSIZE))"

text \<open>The inner loop of the search: skip blocks that are too small or carry the tag.\<close>

fun fit_search :: "nat \<Rightarrow> heap \<Rightarrow> word32 \<Rightarrow> word32 \<Rightarrow> word32 option" where
  "fit_search 0 s asize ptr = None"
| "fit_search (Suc n) s asize ptr =
     (if ptr \<noteq> 0 then do {
        hsz \<leftarrow> GET_SIZE s (HDRP ptr);
        skip \<leftarrow> (if asize > hsz then Some True
                 else do { tag \<leftarrow> GET_TAG s (HDRP ptr); Some (tag \<noteq> 0) });
        if skip then do {
          p \<leftarrow> PRED s ptr;
          fit_search n s asize p
        } else Some ptr
      } else Some ptr)"

function find_fit :: "heap \<Rightarrow> word32 \<Rightarrow> word32 \<Rightarrow> nat \<Rightarrow> word32 \<Rightarrow> word32 option" where
  "find_fit s asize searchsize list ptr =
     (if list < LISTLIMIT then
        if list = LISTLIMIT - 1 \<or> (searchsize \<le> 1 \<and> segregated_free_lists s list \<noteq> 0) then
          case fit_search walk_bound s asize (segregated_free_lists s list) of
            None \<Rightarrow> None
          | Some ptr \<Rightarrow>
              if ptr \<noteq> 0 then Some ptr
              else find_fit s asize (drop_bit 1 searchsize) (list + 1) ptr
        else find_fit s asize (drop_bit 1 searchsize) (list + 1) ptr
      else Some ptr)"
  by pat_completeness auto
termination
  by (relation "measure (\<lambda>(s, asize, searchsize, list, ptr). LISTLIMIT - list)") auto

definition mm_malloc :: "heap \<Rightarrow> word32 \<Rightarrow> (word32 \<times> heap) option" where
  "mm_malloc s n =
     (if n = 0 then Some (0, s)
      else
        let asize = adjusted_size n in do {
          ptr \<leftarrow> find_fit s asize asize 0 0;
          if ptr = 0 then do {
            (ptr, s) \<leftarrow> extend_heap s (MAX_int asize CHUNKSIZE);
            if ptr = 0 then Some (0, s) else place s ptr asize
          } else place s ptr asize
        })"

subsection \<open>Free\<close>

definition mm_free :: "heap \<Rightarrow> word32 \<Rightarrow> heap option" where
  "mm_free s ptr = do {
     sz \<leftarrow> GET_SIZE s (HDRP ptr);
     next \<leftarrow> NEXT_BLKP s ptr;
     _ \<leftarrow> REMOVE_RATAG s (HDRP next);
     s \<leftarrow> PUT s (HDRP ptr) (PACK sz 0);
     ftr \<leftarrow> FTRP s ptr;
     s \<leftarrow> PUT s ftr (PACK sz 0);
     s \<leftarrow> insert_node s ptr sz;
     (_, s) \<leftarrow> coalesce s ptr;
     Some s
   }"

subsection \<open>Resize\<close>

text \<open>
  \<^verbatim>\<open>memcpy\<close> copies bytes from low to high addresses.  A byte is addressed inside the
  little-endian word that holds it.
\<close>

definition load_byte :: "heap \<Rightarrow> word32 \<Rightarrow> 8 word option" where
  "load_byte s p =
     (if valid_byte s p
      then Some (ucast (drop_bit (8 * unat (p AND 3)) (mem s (p AND NOT 3))))
      else None)"

definition store_byte :: "heap \<Rightarrow> word32 \<Rightarrow> 8 word \<Rightarrow> heap option" where
  "store_byte s p b =
     (if valid_byte s p
      then let a = p AND NOT 3; sh = 8 * unat (p AND 3);
               w = (mem s a AND NOT (push_bit sh 255)) OR push_bit sh (ucast b)
           in Some (s\<lparr>mem := (mem s)(a := w)\<rparr>)
      else None)"

fun memcpy :: "heap \<Rightarrow> word32 \<Rightarrow> word32 \<Rightarrow> nat \<Rightarrow> heap option" where
  "memcpy s dst src 0 = Some s"
| "memcpy s dst src (Suc n) = do {
     b \<leftarrow> load_byte s src;
     s \<leftarrow> store_byte s dst b;
     memcpy s (dst + 1) (src + 1) n
   }"

text \<open>The last lines of \<^verbatim>\<open>mm_realloc\<close>: the tagging step and the return.\<close>

definition realloc_tag :: "heap \<Rightarrow> word32 \<Rightarrow> word32 \<Rightarrow> (word32 \<times> heap) option" where
  "realloc_tag s new_ptr block_buffer =
     (if sint block_buffer < sint (2 * REALLOC_BUFFER) then do {
        next \<leftarrow> NEXT_BLKP s new_ptr;
        _ \<leftarrow> SET_RATAG s (HDRP next);
        Some (new_ptr, s)
      } else Some (new_ptr, s))"

definition mm_realloc :: "heap \<Rightarrow> word32 \<Rightarrow> word32 \<Rightarrow> (word32 \<times> heap) option" where
  "mm_realloc s ptr n =
     (if n = 0 then Some (0, s)
      else
        let new_size = adjusted_size n;
            new_size = new_size + REALLOC_BUFFER
        in do {
          hsz \<leftarrow> GET_SIZE s (HDRP ptr);
          let block_buffer = hsz - new_size;
          if sint block_buffer < 0 then do {
            next \<leftarrow> NEXT_BLKP s ptr;
            next_alloc \<leftarrow> GET_ALLOC s (HDRP next);
            next_size \<leftarrow> GET_SIZE s (HDRP next);
            if next_alloc = 0 \<or> next_size = 0 then do {
              let remainder = hsz + next_size - new_size;
              if sint remainder < 0 then do {
                let extendsize = MAX_int (- remainder) CHUNKSIZE;
                (ext, s) \<leftarrow> extend_heap s extendsize;
                if ext = 0 then Some (0, s)
                else do {
                  let remainder = remainder + extendsize;
                  next \<leftarrow> NEXT_BLKP s ptr;
                  s \<leftarrow> delete_node s next;
                  s \<leftarrow> PUT_NOTAG s (HDRP ptr) (PACK (new_size + remainder) 1);
                  ftr \<leftarrow> FTRP s ptr;
                  s \<leftarrow> PUT_NOTAG s ftr (PACK (new_size + remainder) 1);
                  hsz \<leftarrow> GET_SIZE s (HDRP ptr);
                  realloc_tag s ptr (hsz - new_size)
                }
              } else do {
                next \<leftarrow> NEXT_BLKP s ptr;
                s \<leftarrow> delete_node s next;
                s \<leftarrow> PUT_NOTAG s (HDRP ptr) (PACK (new_size + remainder) 1);
                ftr \<leftarrow> FTRP s ptr;
                s \<leftarrow> PUT_NOTAG s ftr (PACK (new_size + remainder) 1);
                hsz \<leftarrow> GET_SIZE s (HDRP ptr);
                realloc_tag s ptr (hsz - new_size)
              }
            } else do {
              (new_ptr, s) \<leftarrow> mm_malloc s (new_size - DSIZE);
              s \<leftarrow> memcpy s new_ptr ptr (unat (MIN_int n new_size));
              s \<leftarrow> mm_free s ptr;
              hsz \<leftarrow> GET_SIZE s (HDRP new_ptr);
              realloc_tag s new_ptr (hsz - new_size)
            }
          } else realloc_tag s ptr block_buffer
        })"

subsection \<open>Sequences of calls\<close>

text \<open>A client's calls after \<^verbatim>\<open>mm_init\<close>, run one after the other on the allocator's state.\<close>

datatype request = Malloc word32 | Free word32 | Realloc word32 word32

fun call :: "heap \<Rightarrow> request \<Rightarrow> heap option" where
  "call s (Malloc n) = map_option snd (mm_malloc s n)"
| "call s (Free p) = mm_free s p"
| "call s (Realloc p n) = map_option snd (mm_realloc s p n)"

fun calls :: "heap \<Rightarrow> request list \<Rightarrow> heap option" where
  "calls s [] = Some s"
| "calls s (r # rs) = do { s \<leftarrow> call s r; calls s rs }"

subsection \<open>Well-formed free lists\<close>

text \<open>
  The vocabulary of the statements about \<^verbatim>\<open>place\<close> and \<^verbatim>\<open>coalesce\<close>.  \<open>block_size s bp\<close>
  is the size in the header of the block at \<open>bp\<close>.  A block lies in the arena when it is
  8-aligned, has at least 16 bytes and, with the header of its successor, fits between
  the start and the end of the arena.  Two blocks are apart when their extents do not
  meet.  \<open>chain s succ p xs\<close> says that the \<^verbatim>\<open>PRED\<close> links lead from the pointer \<open>p\<close>
  through the blocks \<open>xs\<close> to \<^verbatim>\<open>NULL\<close> and that the \<^verbatim>\<open>SUCC\<close> links lead back.  The
  directory is well formed for the lists \<open>L\<close>, \<open>wf_lists s L\<close>, when every
  \<^verbatim>\<open>segregated_free_lists[k]\<close> is such a chain through \<open>L k\<close>, without repetition, every
  block of \<open>L k\<close> is a free block of the arena whose size selects list \<open>k\<close>, and any two
  listed blocks are apart.  \<open>in_block x sx a\<close>: the word at \<open>a\<close> is 4-aligned and lies in
  the extent of the block, from its header to its footer.  \<open>link_word L a\<close>: \<open>a\<close> is a
  \<^verbatim>\<open>PRED\<close> or \<^verbatim>\<open>SUCC\<close> field of a listed block.  \<open>same_arena\<close>: the provider's variables
  agree.  \<open>aligned_word\<close>: a 4-aligned word of the arena.  \<open>unlink L x\<close> are the
  lists without \<open>x\<close>, and \<open>in_lists L x\<close> says that \<open>x\<close> is in one of the lists.
  \<open>coalesced s s' L L' M z\<close> describes the state \<open>s'\<close> after a merge from \<open>s\<close>: the
  directory is well formed for \<open>L'\<close> with the merged block \<open>M\<close> of size \<open>z\<close> at the
  head of its list, header and footer of \<open>M\<close> hold \<open>z\<close> with the allocation bit clear,
  and only words of \<open>M\<close> and link fields of blocks of \<open>L\<close> have changed.
\<close>

definition block_size :: "heap \<Rightarrow> word32 \<Rightarrow> word32" where
  "block_size s bp = mem s (HDRP bp) AND NOT 7"

definition block_in_arena :: "heap \<Rightarrow> word32 \<Rightarrow> word32 \<Rightarrow> bool" where
  "block_in_arena s bp sz \<longleftrightarrow>
     bp AND 7 = 0 \<and> sz AND 7 = 0 \<and> 16 \<le> unat sz \<and>
     unat (mem_start_brk s) + 4 \<le> unat bp \<and> unat bp + unat sz \<le> unat (mem_max_addr s)"

definition apart :: "word32 \<Rightarrow> word32 \<Rightarrow> word32 \<Rightarrow> word32 \<Rightarrow> bool" where
  "apart x sx y sy \<longleftrightarrow> unat x + unat sx \<le> unat y \<or> unat y + unat sy \<le> unat x"

fun chain :: "heap \<Rightarrow> word32 \<Rightarrow> word32 \<Rightarrow> word32 list \<Rightarrow> bool" where
  "chain s succ p [] \<longleftrightarrow> p = 0"
| "chain s succ p (x # xs) \<longleftrightarrow>
     p = x \<and> x \<noteq> 0 \<and> mem s (SUCC_PTR x) = succ \<and> chain s x (mem s (PRED_PTR x)) xs"

definition free_block :: "heap \<Rightarrow> nat \<Rightarrow> word32 \<Rightarrow> bool" where
  "free_block s k x \<longleftrightarrow>
     block_in_arena s x (block_size s x) \<and> mem s (HDRP x) AND 1 = 0 \<and>
     fst (select_list 0 (block_size s x)) = k"

definition wf_lists :: "heap \<Rightarrow> (nat \<Rightarrow> word32 list) \<Rightarrow> bool" where
  "wf_lists s L \<longleftrightarrow>
     (\<forall>k<LISTLIMIT. chain s 0 (segregated_free_lists s k) (L k) \<and> distinct (L k) \<and>
        (\<forall>x\<in>set (L k). free_block s k x)) \<and>
     (\<forall>j<LISTLIMIT. \<forall>k<LISTLIMIT. \<forall>x\<in>set (L j). \<forall>y\<in>set (L k).
        x \<noteq> y \<longrightarrow> apart x (block_size s x) y (block_size s y))"

definition in_block :: "word32 \<Rightarrow> word32 \<Rightarrow> word32 \<Rightarrow> bool" where
  "in_block x sx a \<longleftrightarrow> a AND 3 = 0 \<and> unat x \<le> unat a + 4 \<and> unat a + 8 \<le> unat x + unat sx"

definition link_word :: "(nat \<Rightarrow> word32 list) \<Rightarrow> word32 \<Rightarrow> bool" where
  "link_word L a \<longleftrightarrow> (\<exists>k<LISTLIMIT. \<exists>y\<in>set (L k). a = PRED_PTR y \<or> a = SUCC_PTR y)"

definition same_arena :: "heap \<Rightarrow> heap \<Rightarrow> bool" where
  "same_arena s s' \<longleftrightarrow>
     mem_start_brk s' = mem_start_brk s \<and> mem_brk s' = mem_brk s \<and>
     mem_max_addr s' = mem_max_addr s"

definition unlink :: "(nat \<Rightarrow> word32 list) \<Rightarrow> word32 \<Rightarrow> nat \<Rightarrow> word32 list" where
  "unlink L x = (\<lambda>k. remove1 x (L k))"

definition in_lists :: "(nat \<Rightarrow> word32 list) \<Rightarrow> word32 \<Rightarrow> bool" where
  "in_lists L x \<longleftrightarrow> (\<exists>k<LISTLIMIT. x \<in> set (L k))"

definition coalesced ::
  "heap \<Rightarrow> heap \<Rightarrow> (nat \<Rightarrow> word32 list) \<Rightarrow> (nat \<Rightarrow> word32 list) \<Rightarrow> word32 \<Rightarrow> word32 \<Rightarrow> bool" where
  "coalesced s s' L L' M z \<longleftrightarrow>
     wf_lists s' (L'(fst (select_list 0 z) := M # L' (fst (select_list 0 z)))) \<and>
     mem s' (HDRP M) = PACK z 0 OR (mem s (HDRP M) AND 2) \<and>
     mem s' (M + z - DSIZE) = PACK z 0 OR (mem s (M + z - DSIZE) AND 2) \<and>
     (\<forall>w. \<not> link_word L w \<and> \<not> in_block M z w \<longrightarrow> mem s' w = mem s w)"

definition aligned_word :: "heap \<Rightarrow> word32 \<Rightarrow> bool" where
  "aligned_word s p \<longleftrightarrow> p AND 3 = 0 \<and> valid_word s p"

subsection \<open>Concrete heaps\<close>

text \<open>
  What the provider hands over before \<^verbatim>\<open>mm_init\<close>: an arena from \<open>lo\<close> to \<open>hi\<close> with
  contents \<open>m\<close>, an empty heap, and the list directory as C zero-initialises it.
\<close>

definition fresh_heap :: "(word32 \<Rightarrow> word32) \<Rightarrow> word32 \<Rightarrow> word32 \<Rightarrow> heap" where
  "fresh_heap m lo hi =
     \<lparr>mem = m, mem_start_brk = lo, mem_brk = lo, mem_max_addr = hi,
      segregated_free_lists = (\<lambda>_. 0)\<rparr>"

text \<open>A zero-filled arena of one megabyte at address \<open>0x1000\<close>.\<close>

definition arena :: heap where
  "arena = fresh_heap (\<lambda>_. 0) 0x1000 0x101000"

text \<open>A zero-filled arena with room for nothing beyond the initial heap of 16 + 64 bytes.\<close>

definition small_arena :: heap where
  "small_arena = fresh_heap (\<lambda>_. 0) 0x1000 0x1050"

text \<open>
  The heaps below are the states of four short runs on these arenas; the lemmas of the
  section on evaluation check each step.  Only nonzero words are listed.

  First run: \<^verbatim>\<open>mm_init(); a = mm_malloc(16); b = mm_malloc(8); c = mm_malloc(16);
  mm_free(c); mm_free(a)\<close>, with \<open>a = 0x1010\<close>, \<open>b = 0x1028\<close> and \<open>c = 0x1038\<close>.
\<close>

definition heap_init :: heap where
  "heap_init =
     \<lparr>mem = (\<lambda>_. 0)(0x1004 := 9, 0x1008 := 9, 0x100C := 64, 0x1048 := 64, 0x104C := 1),
      mem_start_brk = 0x1000, mem_brk = 0x1050, mem_max_addr = 0x101000,
      segregated_free_lists = (\<lambda>_. 0)(6 := 0x1010)\<rparr>"

definition heap_a :: heap where
  "heap_a =
     \<lparr>mem = (\<lambda>_. 0)(0x1004 := 9, 0x1008 := 9, 0x100C := 25, 0x1020 := 25, 0x1024 := 40,
        0x1048 := 40, 0x104C := 1),
      mem_start_brk = 0x1000, mem_brk = 0x1050, mem_max_addr = 0x101000,
      segregated_free_lists = (\<lambda>_. 0)(5 := 0x1028)\<rparr>"

definition heap_ab :: heap where
  "heap_ab =
     \<lparr>mem = (\<lambda>_. 0)(0x1004 := 9, 0x1008 := 9, 0x100C := 25, 0x1020 := 25, 0x1024 := 17,
        0x1030 := 17, 0x1034 := 24, 0x1048 := 24, 0x104C := 1),
      mem_start_brk = 0x1000, mem_brk = 0x1050, mem_max_addr = 0x101000,
      segregated_free_lists = (\<lambda>_. 0)(4 := 0x1038)\<rparr>"

definition heap_abc :: heap where
  "heap_abc =
     \<lparr>mem = (\<lambda>_. 0)(0x1004 := 9, 0x1008 := 9, 0x100C := 25, 0x1020 := 25, 0x1024 := 17,
        0x1030 := 17, 0x1034 := 25, 0x1048 := 25, 0x104C := 1),
      mem_start_brk = 0x1000, mem_brk = 0x1050, mem_max_addr = 0x101000,
      segregated_free_lists = (\<lambda>_. 0)\<rparr>"

definition heap_b_free_c_a :: heap where
  "heap_b_free_c_a =
     \<lparr>mem = (\<lambda>_. 0)(0x1004 := 9, 0x1008 := 9, 0x100C := 24, 0x1010 := 0x1038, 0x1020 := 24,
        0x1024 := 17, 0x1030 := 17, 0x1034 := 24, 0x103C := 0x1010, 0x1048 := 24,
        0x104C := 1),
      mem_start_brk = 0x1000, mem_brk = 0x1050, mem_max_addr = 0x101000,
      segregated_free_lists = (\<lambda>_. 0)(4 := 0x1010)\<rparr>"

text \<open>
  The state in which \<^verbatim>\<open>mm_free(b)\<close>, called at the end of the first run, calls
  \<^verbatim>\<open>coalesce(b)\<close>: header and footer of \<open>b\<close> are marked free and \<open>b\<close> is at the head
  of list 4, before \<open>a\<close> and \<open>c\<close>.
\<close>

definition heap_b_inserted :: heap where
  "heap_b_inserted =
     \<lparr>mem = (\<lambda>_. 0)(0x1004 := 9, 0x1008 := 9, 0x100C := 24, 0x1010 := 0x1038,
        0x1014 := 0x1028, 0x1020 := 24, 0x1024 := 16, 0x1028 := 0x1010, 0x1030 := 16,
        0x1034 := 24, 0x103C := 0x1010, 0x1048 := 24, 0x104C := 1),
      mem_start_brk = 0x1000, mem_brk = 0x1050, mem_max_addr = 0x101000,
      segregated_free_lists = (\<lambda>_. 0)(4 := 0x1028)\<rparr>"

text \<open>Second run: \<^verbatim>\<open>mm_init(); p = mm_malloc(200)\<close>, with \<open>p = 0x1F80\<close>.\<close>

definition heap_p :: heap where
  "heap_p =
     \<lparr>mem = (\<lambda>_. 0)(0x1004 := 9, 0x1008 := 9, 0x100C := 3952, 0x1048 := 64,
        0x104C := 0x1000, 0x1F78 := 3952, 0x1F7C := 209, 0x2048 := 209, 0x204C := 1),
      mem_start_brk = 0x1000, mem_brk = 0x2050, mem_max_addr = 0x101000,
      segregated_free_lists = (\<lambda>_. 0)(11 := 0x1010)\<rparr>"

text \<open>
  Third run: \<^verbatim>\<open>mm_init(); a = mm_malloc(16); b = mm_malloc(16)\<close>, with \<open>a = 0x1010\<close> and
  \<open>b = 0x1028\<close>; then the heap in which the header of \<open>b\<close>, the block after \<open>a\<close>, carries
  the reallocation tag, and that heap after \<^verbatim>\<open>mm_free(a)\<close>.
\<close>

definition heap_a_b :: heap where
  "heap_a_b =
     \<lparr>mem = (\<lambda>_. 0)(0x1004 := 9, 0x1008 := 9, 0x100C := 25, 0x1020 := 25, 0x1024 := 41,
        0x1048 := 41, 0x104C := 1),
      mem_start_brk = 0x1000, mem_brk = 0x1050, mem_max_addr = 0x101000,
      segregated_free_lists = (\<lambda>_. 0)\<rparr>"

definition heap_a_b_tagged :: heap where
  "heap_a_b_tagged =
     \<lparr>mem = (\<lambda>_. 0)(0x1004 := 9, 0x1008 := 9, 0x100C := 25, 0x1020 := 25, 0x1024 := 43,
        0x1048 := 41, 0x104C := 1),
      mem_start_brk = 0x1000, mem_brk = 0x1050, mem_max_addr = 0x101000,
      segregated_free_lists = (\<lambda>_. 0)\<rparr>"

definition heap_b_tagged_free_a :: heap where
  "heap_b_tagged_free_a =
     \<lparr>mem = (\<lambda>_. 0)(0x1004 := 9, 0x1008 := 9, 0x100C := 24, 0x1020 := 24, 0x1024 := 43,
        0x1048 := 41, 0x104C := 1),
      mem_start_brk = 0x1000, mem_brk = 0x1050, mem_max_addr = 0x101000,
      segregated_free_lists = (\<lambda>_. 0)(4 := 0x1010)\<rparr>"

text \<open>
  Fourth run, on the small arena: \<^verbatim>\<open>mm_init(); a = mm_malloc(16); b = mm_malloc(16)\<close>,
  after which no free block is left and the provider has nothing more to give.
\<close>

definition small_init :: heap where
  "small_init =
     \<lparr>mem = (\<lambda>_. 0)(0x1004 := 9, 0x1008 := 9, 0x100C := 64, 0x1048 := 64, 0x104C := 1),
      mem_start_brk = 0x1000, mem_brk = 0x1050, mem_max_addr = 0x1050,
      segregated_free_lists = (\<lambda>_. 0)(6 := 0x1010)\<rparr>"

definition small_a :: heap where
  "small_a =
     \<lparr>mem = (\<lambda>_. 0)(0x1004 := 9, 0x1008 := 9, 0x100C := 25, 0x1020 := 25, 0x1024 := 40,
        0x1048 := 40, 0x104C := 1),
      mem_start_brk = 0x1000, mem_brk = 0x1050, mem_max_addr = 0x1050,
      segregated_free_lists = (\<lambda>_. 0)(5 := 0x1028)\<rparr>"

definition small_full :: heap where
  "small_full =
     \<lparr>mem = (\<lambda>_. 0)(0x1004 := 9, 0x1008 := 9, 0x100C := 25, 0x1020 := 25, 0x1024 := 41,
        0x1048 := 41, 0x104C := 1),
      mem_start_brk = 0x1000, mem_brk = 0x1050, mem_max_addr = 0x1050,
      segregated_free_lists = (\<lambda>_. 0)\<rparr>"

text \<open>
  Fifth run, on an arena that is not zero-filled: before the heap reaches them, the words
  at \<open>0x204C\<close>, \<open>0x2050\<close> and \<open>0x2054\<close> hold 3, \<open>0x1010\<close> and \<open>0x1018\<close>.
  \<^verbatim>\<open>mm_init(); a = mm_malloc(16); b = mm_malloc(16); c = mm_malloc(5000); mm_free(b);
  mm_realloc(a, 16)\<close>, with \<open>a = 0x1010\<close>, \<open>b = 0x1028\<close> and \<open>c = 0x1050\<close>; the three
  words lie in the payload of \<open>c\<close>.  Then either \<^verbatim>\<open>mm_free(a)\<close> or \<^verbatim>\<open>mm_realloc(a, 4200)\<close>.
\<close>

definition stale_arena :: heap where
  "stale_arena =
     fresh_heap ((\<lambda>_. 0)(0x204C := 3, 0x2050 := 0x1010, 0x2054 := 0x1018)) 0x1000 0x101000"

definition stale_init :: heap where
  "stale_init =
     \<lparr>mem = (\<lambda>_. 0)(0x1004 := 9, 0x1008 := 9, 0x100C := 64, 0x1048 := 64, 0x104C := 1,
        0x204C := 3, 0x2050 := 0x1010, 0x2054 := 0x1018),
      mem_start_brk = 0x1000, mem_brk = 0x1050, mem_max_addr = 0x101000,
      segregated_free_lists = (\<lambda>_. 0)(6 := 0x1010)\<rparr>"

definition stale_a :: heap where
  "stale_a =
     \<lparr>mem = (\<lambda>_. 0)(0x1004 := 9, 0x1008 := 9, 0x100C := 25, 0x1020 := 25, 0x1024 := 40,
        0x1048 := 40, 0x104C := 1, 0x204C := 3, 0x2050 := 0x1010, 0x2054 := 0x1018),
      mem_start_brk = 0x1000, mem_brk = 0x1050, mem_max_addr = 0x101000,
      segregated_free_lists = (\<lambda>_. 0)(5 := 0x1028)\<rparr>"

definition stale_ab :: heap where
  "stale_ab =
     \<lparr>mem = (\<lambda>_. 0)(0x1004 := 9, 0x1008 := 9, 0x100C := 25, 0x1020 := 25, 0x1024 := 41,
        0x1048 := 41, 0x104C := 1, 0x204C := 3, 0x2050 := 0x1010, 0x2054 := 0x1018),
      mem_start_brk = 0x1000, mem_brk = 0x1050, mem_max_addr = 0x101000,
      segregated_free_lists = (\<lambda>_. 0)\<rparr>"

definition stale_abc :: heap where
  "stale_abc =
     \<lparr>mem = (\<lambda>_. 0)(0x1004 := 9, 0x1008 := 9, 0x100C := 25, 0x1020 := 25, 0x1024 := 41,
        0x1048 := 41, 0x104C := 5009, 0x204C := 3, 0x2050 := 0x1010, 0x2054 := 0x1018,
        0x23D8 := 5009, 0x23DC := 1),
      mem_start_brk = 0x1000, mem_brk = 0x23E0, mem_max_addr = 0x101000,
      segregated_free_lists = (\<lambda>_. 0)\<rparr>"

text \<open>
  The same three words get there on the zero-filled arena when the client stores them
  into its block \<open>c\<close>: \<open>heap_a_b_c\<close> is the heap after \<^verbatim>\<open>mm_init(); a = mm_malloc(16);
  b = mm_malloc(16); c = mm_malloc(5000)\<close> on the zero-filled arena, and three word
  stores at \<open>c + 0xFFC\<close>, \<open>c + 0x1000\<close> and \<open>c + 0x1004\<close> turn it into \<open>stale_abc\<close>.
\<close>

definition heap_a_b_c :: heap where
  "heap_a_b_c =
     \<lparr>mem = (\<lambda>_. 0)(0x1004 := 9, 0x1008 := 9, 0x100C := 25, 0x1020 := 25, 0x1024 := 41,
        0x1048 := 41, 0x104C := 5009, 0x23D8 := 5009, 0x23DC := 1),
      mem_start_brk = 0x1000, mem_brk = 0x23E0, mem_max_addr = 0x101000,
      segregated_free_lists = (\<lambda>_. 0)\<rparr>"

definition stale_ac :: heap where
  "stale_ac =
     \<lparr>mem = (\<lambda>_. 0)(0x1004 := 9, 0x1008 := 9, 0x100C := 25, 0x1020 := 25, 0x1024 := 40,
        0x1048 := 40, 0x104C := 5009, 0x204C := 3, 0x2050 := 0x1010, 0x2054 := 0x1018,
        0x23D8 := 5009, 0x23DC := 1),
      mem_start_brk = 0x1000, mem_brk = 0x23E0, mem_max_addr = 0x101000,
      segregated_free_lists = (\<lambda>_. 0)(5 := 0x1028)\<rparr>"

definition stale_grown :: heap where
  "stale_grown =
     \<lparr>mem = (\<lambda>_. 0)(0x1004 := 9, 0x1008 := 9, 0x100C := 4161, 0x1020 := 25, 0x1024 := 40,
        0x1048 := 40, 0x104C := 5009, 0x2048 := 4161, 0x204C := 3, 0x2050 := 0x1010,
        0x2054 := 0x1018, 0x23D8 := 5009, 0x23DC := 0x1000, 0x33D8 := 0x1000, 0x33DC := 1),
      mem_start_brk = 0x1000, mem_brk = 0x33E0, mem_max_addr = 0x101000,
      segregated_free_lists = (\<lambda>_. 0)(12 := 0x23E0)\<rparr>"

definition stale_freed :: heap where
  "stale_freed =
     \<lparr>mem = (\<lambda>_. 0)(0x1004 := 9, 0x1008 := 9, 0x100C := 0x1040, 0x1010 := 0x23E0,
        0x1020 := 25, 0x1024 := 40, 0x1048 := 40, 0x104C := 5009, 0x2048 := 0x1040,
        0x204C := 3, 0x2050 := 0x1010, 0x2054 := 0x1018, 0x23D8 := 5009, 0x23DC := 0x1000,
        0x23E4 := 0x1010, 0x33D8 := 0x1000, 0x33DC := 1),
      mem_start_brk = 0x1000, mem_brk = 0x33E0, mem_max_addr = 0x101000,
      segregated_free_lists = (\<lambda>_. 0)(12 := 0x1010)\<rparr>"

definition stale_regrown :: heap where
  "stale_regrown =
     \<lparr>mem = (\<lambda>_. 0)(0x1004 := 9, 0x1008 := 9, 0x100C := 8257, 0x1014 := 0x1018,
        0x1018 := 0x1010, 0x1020 := 25, 0x1024 := 40, 0x1048 := 40, 0x104C := 5009,
        0x2048 := 4161, 0x204C := 3, 0x2050 := 0x1010, 0x2054 := 0x1018, 0x23D8 := 5009,
        0x23DC := 0x2000, 0x3048 := 8257, 0x33D8 := 0x1000, 0x33DC := 0x1000,
        0x33E0 := 0x23E0, 0x43D8 := 0x2000, 0x43DC := 1),
      mem_start_brk = 0x1000, mem_brk = 0x43E0, mem_max_addr = 0x101000,
      segregated_free_lists = (\<lambda>_. 0)(13 := 0x23E0)\<rparr>"

text \<open>
  Sixth run, on the zero-filled arena: \<^verbatim>\<open>mm_init(); p = mm_malloc(0xFFFFFFF0)\<close>, with
  \<open>p = 0x2058\<close>, and then \<^verbatim>\<open>mm_realloc(p, 16)\<close>.
\<close>

definition heap_huge :: heap where
  "heap_huge =
     \<lparr>mem = (\<lambda>_. 0)(0x1004 := 9, 0x1008 := 9, 0x100C := 4168, 0x1048 := 64,
        0x104C := 0x1000, 0x2048 := 0xFFFFFFF9, 0x204C := 1, 0x2050 := 4168,
        0x2054 := 0xFFFFFFF9),
      mem_start_brk = 0x1000, mem_brk = 0x2050, mem_max_addr = 0x101000,
      segregated_free_lists = (\<lambda>_. 0)(12 := 0x1010)\<rparr>"

definition heap_huge_resized :: heap where
  "heap_huge_resized =
     \<lparr>mem = (\<lambda>_. 0)(0x1004 := 9, 0x1008 := 9, 0x100C := 4168, 0x1014 := 0x2058,
        0x1048 := 64, 0x104C := 0x1000, 0x2048 := 0xFFFFFFF9, 0x204C := 0x1000,
        0x2050 := 0x1010, 0x2054 := 4089, 0x2058 := 0x1010, 0x3048 := 4089, 0x304C := 1),
      mem_start_brk = 0x1000, mem_brk = 0x3050, mem_max_addr = 0x101000,
      segregated_free_lists = (\<lambda>_. 0)(12 := 0x2058)\<rparr>"

section \<open>Evaluation\<close>

declare select_list.simps [simp del]
declare find_fit.simps [simp del]

lemma insert_search_numeral:
  "insert_search (numeral k) s sz search_ptr insert_ptr =
     (if search_ptr \<noteq> 0 then do {
        hsz \<leftarrow> GET_SIZE s (HDRP search_ptr);
        if sz > hsz then do {
          p \<leftarrow> PRED s search_ptr;
          insert_search (pred_numeral k) s sz p search_ptr
        } else Some (search_ptr, insert_ptr)
      } else Some (search_ptr, insert_ptr))"
  by (simp add: numeral_eq_Suc)

lemma fit_search_numeral:
  "fit_search (numeral k) s asize ptr =
     (if ptr \<noteq> 0 then do {
        hsz \<leftarrow> GET_SIZE s (HDRP ptr);
        skip \<leftarrow> (if asize > hsz then Some True
                 else do { tag \<leftarrow> GET_TAG s (HDRP ptr); Some (tag \<noteq> 0) });
        if skip then do {
          p \<leftarrow> PRED s ptr;
          fit_search (pred_numeral k) s asize p
        } else Some ptr
      } else Some ptr)"
  by (simp add: numeral_eq_Suc)

lemma memcpy_numeral:
  "memcpy s dst src (numeral k) = do {
     b \<leftarrow> load_byte s src;
     s \<leftarrow> store_byte s dst b;
     memcpy s (dst + 1) (src + 1) (pred_numeral k)
   }"
  by (simp add: numeral_eq_Suc)

lemma clear_lists:
  "fold (\<lambda>list lists. lists(list := 0)) [0..<n] f = (\<lambda>i. if i < n then 0 else f i)"
  by (induction n arbitrary: f) (auto simp: fun_eq_iff)

lemmas const_defs = WSIZE_def DSIZE_def CHUNKSIZE_def INITCHUNKSIZE_def LISTLIMIT_def
  REALLOC_BUFFER_def walk_bound_def

lemmas access_defs = GET_def GET_SIZE_def GET_ALLOC_def GET_TAG_def REMOVE_RATAG_def
  SET_RATAG_def PUT_def PUT_NOTAG_def SET_PTR_def HDRP_def FTRP_def NEXT_BLKP_def
  PREV_BLKP_def PRED_def SUCC_def PRED_PTR_def SUCC_PTR_def valid_word_def valid_byte_def
  load_byte_def store_byte_def set_list_def load_word_def store_word_def

lemmas run_defs = const_defs access_defs ALIGN_def PACK_def MAX_int_def MIN_int_def
  adjusted_size_def mem_sbrk_def select_list.simps insert_search_numeral fit_search_numeral
  memcpy_numeral find_fit.simps insert_node_def delete_node_def coalesce_def place_def
  extend_heap_def mm_init_def mm_malloc_def mm_free_def realloc_tag_def mm_realloc_def
  fresh_heap_def arena_def small_arena_def clear_lists word_le_nat_alt word_less_nat_alt

lemmas heap_defs = heap_init_def heap_a_def heap_ab_def heap_abc_def heap_b_free_c_a_def heap_p_def heap_a_b_def heap_a_b_tagged_def heap_b_tagged_free_a_def
  small_init_def small_a_def small_full_def stale_arena_def stale_init_def stale_a_def
  stale_ab_def stale_abc_def stale_ac_def stale_grown_def stale_freed_def stale_regrown_def
  heap_huge_def heap_huge_resized_def heap_b_inserted_def heap_a_b_c_def

subsection \<open>The runs, step by step\<close>

lemma run1_init: "mm_init arena = Some (0, heap_init)"
  by (simp add: run_defs heap_defs fun_eq_iff)

lemma run1_malloc_a: "mm_malloc heap_init 16 = Some (0x1010, heap_a)"
  by (simp add: run_defs heap_defs fun_eq_iff)

lemma run1_malloc_b: "mm_malloc heap_a 8 = Some (0x1028, heap_ab)"
  by (simp add: run_defs heap_defs fun_eq_iff)

lemma run1_malloc_c: "mm_malloc heap_ab 16 = Some (0x1038, heap_abc)"
  by (simp add: run_defs heap_defs fun_eq_iff)

lemma run1_free_c: "mm_free heap_abc 0x1038 = Some heap_ab"
  by (simp add: run_defs heap_defs fun_eq_iff)

lemma run1_free_a: "mm_free heap_ab 0x1010 = Some heap_b_free_c_a"
  by (simp add: run_defs heap_defs fun_eq_iff)

lemma run1_free_b_insert:
  "do {
     s \<leftarrow> PUT heap_b_free_c_a (HDRP 0x1028) (PACK 16 0);
     ftr \<leftarrow> FTRP s 0x1028;
     s \<leftarrow> PUT s ftr (PACK 16 0);
     insert_node s 0x1028 16
   } = Some heap_b_inserted"
  by (simp add: run_defs heap_defs fun_eq_iff)

lemma run2_malloc_p: "mm_malloc heap_init 200 = Some (0x1F80, heap_p)"
  by (simp add: run_defs heap_defs fun_eq_iff)

lemma run3_malloc_b: "mm_malloc heap_a 16 = Some (0x1028, heap_a_b)"
  by (simp add: run_defs heap_defs fun_eq_iff)

lemma run3_tag_b: "PUT_NOTAG heap_a_b (HDRP 0x1028) (41 OR 2) = Some heap_a_b_tagged"
  by (simp add: run_defs heap_defs fun_eq_iff)

lemma run3_free_a: "mm_free heap_a_b_tagged 0x1010 = Some heap_b_tagged_free_a"
  by (simp add: run_defs heap_defs fun_eq_iff)

lemma run4_init: "mm_init small_arena = Some (0, small_init)"
  by (simp add: run_defs heap_defs fun_eq_iff)

lemma run4_malloc_a: "mm_malloc small_init 16 = Some (0x1010, small_a)"
  by (simp add: run_defs heap_defs fun_eq_iff)

lemma run4_malloc_b: "mm_malloc small_a 16 = Some (0x1028, small_full)"
  by (simp add: run_defs heap_defs fun_eq_iff)

lemma run5_init: "mm_init stale_arena = Some (0, stale_init)"
  by (simp add: run_defs heap_defs fun_eq_iff)

lemma run5_malloc_a: "mm_malloc stale_init 16 = Some (0x1010, stale_a)"
  by (simp add: run_defs heap_defs fun_eq_iff)

lemma run5_malloc_b: "mm_malloc stale_a 16 = Some (0x1028, stale_ab)"
  by (simp add: run_defs heap_defs fun_eq_iff)

lemma run5_malloc_c: "mm_malloc stale_ab 5000 = Some (0x1050, stale_abc)"
  by (simp add: run_defs heap_defs fun_eq_iff)

lemma run5_free_b: "mm_free stale_abc 0x1028 = Some stale_ac"
  by (simp add: run_defs heap_defs fun_eq_iff)

lemma run5_realloc_a: "mm_realloc stale_ac 0x1010 16 = Some (0x1010, stale_grown)"
  by (simp add: run_defs heap_defs fun_eq_iff)

lemma run5_free_a: "mm_free stale_grown 0x1010 = Some stale_freed"
  by (simp add: run_defs heap_defs fun_eq_iff)

lemma run5_realloc_again: "mm_realloc stale_grown 0x1010 4200 = Some (0x1010, stale_regrown)"
  by (simp add: run_defs heap_defs fun_eq_iff)

lemma run5_zero_malloc_c: "mm_malloc heap_a_b 5000 = Some (0x1050, heap_a_b_c)"
  by (simp add: run_defs heap_defs fun_eq_iff)

lemma run5_client_stores:
  "do {
     s \<leftarrow> PUT_NOTAG heap_a_b_c (0x1050 + 0xFFC) 3;
     s \<leftarrow> PUT_NOTAG s (0x1050 + 0x1000) 0x1010;
     PUT_NOTAG s (0x1050 + 0x1004) 0x1018
   } = Some stale_abc"
  by (simp add: run_defs heap_defs fun_eq_iff)

lemma run6_malloc_p: "mm_malloc heap_init 0xFFFFFFF0 = Some (0x2058, heap_huge)"
  by (simp add: run_defs heap_defs fun_eq_iff)

lemma run6_realloc_p: "mm_realloc heap_huge 0x2058 16 = Some (0x2058, heap_huge_resized)"
  by (simp add: run_defs heap_defs fun_eq_iff)

section \<open>Alignment arithmetic\<close>

lemma and7_take_bit: "(x :: word32) AND 7 = take_bit 3 x"
  by (simp add: take_bit_eq_mask mask_eq_exp_minus_1)

lemma and3_take_bit: "(x :: word32) AND 3 = take_bit 2 x"
  by (simp add: take_bit_eq_mask mask_eq_exp_minus_1)

lemma al8_iff: "(x :: word32) AND 7 = 0 \<longleftrightarrow> (\<exists>k. x = 8 * k)"
proof
  assume "x AND 7 = 0"
  then have "take_bit 3 x = 0" by (simp add: and7_take_bit)
  then have "x = push_bit 3 (drop_bit 3 x)"
    using bits_ident [of 3 x] by simp
  then have "x = 8 * drop_bit 3 x" by (simp add: push_bit_eq_mult mult.commute)
  then show "\<exists>k. x = 8 * k" ..
next
  assume "\<exists>k. x = 8 * k"
  then obtain k where "x = push_bit 3 k" by (auto simp: push_bit_eq_mult mult.commute)
  then show "x AND 7 = 0" by (simp add: and7_take_bit take_bit_push_bit)
qed

lemma al4_iff: "(x :: word32) AND 3 = 0 \<longleftrightarrow> (\<exists>k. x = 4 * k)"
proof
  assume "x AND 3 = 0"
  then have "take_bit 2 x = 0" by (simp add: and3_take_bit)
  then have "x = push_bit 2 (drop_bit 2 x)"
    using bits_ident [of 2 x] by simp
  then have "x = 4 * drop_bit 2 x" by (simp add: push_bit_eq_mult mult.commute)
  then show "\<exists>k. x = 4 * k" ..
next
  assume "\<exists>k. x = 4 * k"
  then obtain k where "x = push_bit 2 k" by (auto simp: push_bit_eq_mult mult.commute)
  then show "x AND 3 = 0" by (simp add: and3_take_bit take_bit_push_bit)
qed

lemma al8_add:
  assumes "(x :: word32) AND 7 = 0" "y AND 7 = 0" shows "(x + y) AND 7 = 0"
proof -
  obtain k l where "x = 8 * k" "y = 8 * l" using assms by (auto simp: al8_iff)
  then have "x + y = 8 * (k + l)" by (simp add: algebra_simps)
  then show ?thesis unfolding al8_iff ..
qed

lemma al8_diff:
  assumes "(x :: word32) AND 7 = 0" "y AND 7 = 0" shows "(x - y) AND 7 = 0"
proof -
  obtain k l where "x = 8 * k" "y = 8 * l" using assms by (auto simp: al8_iff)
  then have "x - y = 8 * (k - l)" by (simp add: algebra_simps)
  then show ?thesis unfolding al8_iff ..
qed

lemma al4_add:
  assumes "(x :: word32) AND 3 = 0" "y AND 3 = 0" shows "(x + y) AND 3 = 0"
proof -
  obtain k l where "x = 4 * k" "y = 4 * l" using assms by (auto simp: al4_iff)
  then have "x + y = 4 * (k + l)" by (simp add: algebra_simps)
  then show ?thesis unfolding al4_iff ..
qed

lemma al4_diff:
  assumes "(x :: word32) AND 3 = 0" "y AND 3 = 0" shows "(x - y) AND 3 = 0"
proof -
  obtain k l where "x = 4 * k" "y = 4 * l" using assms by (auto simp: al4_iff)
  then have "x - y = 4 * (k - l)" by (simp add: algebra_simps)
  then show ?thesis unfolding al4_iff ..
qed

lemma al8_mask: "((v :: word32) AND NOT 7) AND 7 = 0"
  by (simp add: and.assoc)

lemma al8_al4: assumes "(x :: word32) AND 7 = 0" shows "x AND 3 = 0"
proof -
  have "x AND 3 = (x AND 7) AND 3" by (simp add: and.assoc)
  then show ?thesis using assms by simp
qed

lemma al4_bit1: assumes "(x :: word32) AND 3 = 0" shows "x AND 2 = 0"
proof -
  have "x AND 2 = (x AND 3) AND 2" by (simp add: and.assoc)
  then show ?thesis using assms by simp
qed

lemma pack_bit1: assumes "(sz :: word32) AND 7 = 0" shows "PACK sz a AND 2 = 0"
proof -
  have "sz AND 2 = (sz AND 7) AND 2" by (simp add: and.assoc)
  then have "sz AND 2 = 0" using assms by simp
  moreover have "(a AND 1) AND 2 = 0" by (simp add: and.assoc)
  ultimately show ?thesis by (simp add: PACK_def bit.conj_disj_distrib2)
qed

lemma or_bit1: "(v :: word32) AND 2 = 0 \<Longrightarrow> t AND 2 = 0 \<Longrightarrow> (v OR t) AND 2 = 0"
  by (simp add: bit.conj_disj_distrib2)

section \<open>Requests of size zero\<close>

text \<open>
  C8.  In every state \<^verbatim>\<open>mm_malloc(0)\<close> returns \<^verbatim>\<open>NULL\<close>, and for every pointer \<open>p\<close>
  \<^verbatim>\<open>mm_realloc(p, 0)\<close> returns \<^verbatim>\<open>NULL\<close>; both leave the whole state as it was: nothing is
  placed, freed or extended.
\<close>

theorem size_zero_is_noop:
  "mm_malloc s 0 = Some (0, s) \<and> mm_realloc s p 0 = Some (0, s)"
  by (simp add: mm_malloc_def mm_realloc_def)

section \<open>Resizing a block that already has room\<close>

lemma next_blkp_of_size:
  "GET_SIZE s (HDRP p) = Some bsz \<Longrightarrow> NEXT_BLKP s p = Some (p + bsz)"
  by (simp add: NEXT_BLKP_def HDRP_def)

lemma set_ratag_returns:
  "valid_word s p \<Longrightarrow> \<exists>v. SET_RATAG s p = Some v"
  by (simp add: SET_RATAG_def GET_def)

lemma realloc_tag_no_store:
  assumes "GET_SIZE s (HDRP q) = Some bsz" and "valid_word s (HDRP (q + bsz))"
  shows "realloc_tag s q block_buffer = Some (q, s)"
proof -
  obtain v where "SET_RATAG s (HDRP (q + bsz)) = Some v"
    using set_ratag_returns [OF assms(2)] by blast
  then show ?thesis
    by (simp add: realloc_tag_def next_blkp_of_size [OF assms(1)])
qed

lemma sint_eq_unat:
  fixes w :: word32
  assumes "unat w < 2 ^ 31"
  shows "sint w = int (unat w)"
proof -
  have lt: "uint w < 2 ^ 31"
    using assms by (metis of_nat_less_numeral_power_cancel_iff of_nat_unat)
  have "0 \<le> uint w"
    by simp
  then have ge: "- (2 ^ 31) \<le> uint w"
    by (rule order_trans [rotated]) simp
  have "signed_take_bit 31 (uint w) = uint w"
    using ge lt by (rule signed_take_bit_int_eq_self)
  then show ?thesis
    by (simp add: sint_uint)
qed

lemma slack_not_negative:
  fixes bsz new_size :: word32
  assumes "unat new_size \<le> unat bsz" and "unat bsz - unat new_size < 2 ^ 31"
  shows "\<not> sint (bsz - new_size) < 0"
proof -
  have le: "new_size \<le> bsz"
    using assms(1) by (simp add: word_le_nat_alt)
  have "unat (bsz - new_size) = unat bsz - unat new_size"
    using le by (rule unat_sub)
  then have "unat (bsz - new_size) < 2 ^ 31"
    using assms(2) by simp
  then have "sint (bsz - new_size) = int (unat (bsz - new_size))"
    by (rule sint_eq_unat)
  then show ?thesis
    by simp
qed

text \<open>
  C10, as amended.  Let \<open>bsz\<close> be the size in the header of \<open>p\<close>'s block and let the
  request be \<open>n > 0\<close>.  If the adjusted size of \<open>n\<close> plus the 128-byte buffer is at most
  \<open>bsz\<close>, and the slack, \<open>bsz\<close> minus that sum, is below \<open>2 ^ 31\<close>, the range of the
  \<^verbatim>\<open>int\<close> in which \<^verbatim>\<open>mm_realloc\<close> holds it (the header of the next block being a word of
  the arena), then \<^verbatim>\<open>mm_realloc\<close> returns \<open>p\<close> itself and the whole state is as before:
  header, footer and size of the block are unchanged and nothing is split off.
\<close>

theorem realloc_with_room_is_identity:
  assumes "n \<noteq> 0"
    and "GET_SIZE s (HDRP p) = Some bsz"
    and "unat (adjusted_size n) + unat REALLOC_BUFFER \<le> unat bsz"
    and "unat bsz - (unat (adjusted_size n) + unat REALLOC_BUFFER) < 2 ^ 31"
    and "valid_word s (HDRP (p + bsz))"
  shows "mm_realloc s p n = Some (p, s)"
proof -
  let ?new = "adjusted_size n + REALLOC_BUFFER"
  have "unat (adjusted_size n) + unat REALLOC_BUFFER < 2 ^ LENGTH(32)"
    using assms(3) unsigned_less [of bsz, where 'a = nat] by simp
  then have new: "unat ?new = unat (adjusted_size n) + unat REALLOC_BUFFER"
    using unat_add_lem [of "adjusted_size n" REALLOC_BUFFER] by simp
  then have "unat ?new \<le> unat bsz" and "unat bsz - unat ?new < 2 ^ 31"
    using assms(3) assms(4) by simp_all
  then have nonneg: "\<not> sint (bsz - ?new) < 0"
    by (rule slack_not_negative)
  have "realloc_tag s p (bsz - ?new) = Some (p, s)"
    using assms(2) assms(5) by (rule realloc_tag_no_store)
  then show ?thesis
    using assms(1) assms(2) nonneg by (simp add: mm_realloc_def)
qed

theorem realloc_with_room_witness:
  "mm_realloc heap_p 0x1F80 16 = Some (0x1F80, heap_p)"
proof -
  have size: "GET_SIZE heap_p (HDRP 0x1F80) = Some 208"
    by (simp add: access_defs const_defs heap_p_def)
  have next_hdr: "valid_word heap_p (HDRP (0x1F80 + 208))"
    by (simp add: access_defs const_defs heap_p_def)
  have room: "unat (adjusted_size 16) + unat REALLOC_BUFFER \<le> unat (208 :: word32)"
    by (simp add: adjusted_size_def ALIGN_def const_defs)
  have slack: "unat (208 :: word32) - (unat (adjusted_size 16) + unat REALLOC_BUFFER) < 2 ^ 31"
    by (simp add: adjusted_size_def ALIGN_def const_defs)
  show ?thesis
    using realloc_with_room_is_identity [of 16 heap_p "0x1F80" 208] size next_hdr room slack
    by simp
qed

text \<open>
  C10 as stated, for every block size, fails on the code: \<^verbatim>\<open>block_buffer\<close> is an \<^verbatim>\<open>int\<close>,
  and a slack of \<open>2 ^ 31\<close> or more reads as negative.  After \<^verbatim>\<open>mm_init();
  p = mm_malloc(0xFFFFFFF0)\<close> the header of \<open>p = 0x2058\<close> holds the size \<open>0xFFFFFFF8\<close>,
  far above the adjusted size 24 of a request of 16 bytes plus the buffer of 128.  Yet
  \<^verbatim>\<open>mm_realloc(p, 16)\<close> takes the block for too small: it extends the heap by 4096 bytes,
  unlinks the word range after the block from a free list and rewrites the header of
  \<open>p\<close> to size 4088.
\<close>

theorem realloc_with_room_rewrites_huge_block:
  "mm_init arena = Some (0, heap_init) \<and>
   mm_malloc heap_init 0xFFFFFFF0 = Some (0x2058, heap_huge) \<and>
   GET heap_huge (HDRP 0x2058) = Some 0xFFFFFFF9 \<and>
   GET_SIZE heap_huge (HDRP 0x2058) = Some 0xFFFFFFF8 \<and>
   adjusted_size 16 + REALLOC_BUFFER = 152 \<and>
   (152 :: word32) \<le> 0xFFFFFFF8 \<and>
   mm_realloc heap_huge 0x2058 16 = Some (0x2058, heap_huge_resized) \<and>
   GET heap_huge_resized (HDRP 0x2058) = Some 4089 \<and>
   GET_SIZE heap_huge_resized (HDRP 0x2058) = Some 4088 \<and>
   mem_brk heap_huge = 0x2050 \<and>
   mem_brk heap_huge_resized = 0x3050"
proof -
  have "GET heap_huge (HDRP 0x2058) = Some 0xFFFFFFF9"
    and "GET_SIZE heap_huge (HDRP 0x2058) = Some 0xFFFFFFF8"
    and "adjusted_size 16 + REALLOC_BUFFER = 152"
    and "(152 :: word32) \<le> 0xFFFFFFF8"
    and "GET heap_huge_resized (HDRP 0x2058) = Some 4089"
    and "GET_SIZE heap_huge_resized (HDRP 0x2058) = Some 4088"
    and "mem_brk heap_huge = 0x2050"
    and "mem_brk heap_huge_resized = 0x3050"
    by (simp_all add: access_defs const_defs adjusted_size_def ALIGN_def heap_defs
        word_le_nat_alt)
  then show ?thesis
    using run1_init run6_malloc_p run6_realloc_p by simp
qed

section \<open>The tag helpers store nothing\<close>

text \<open>
  C2 fails on the code.  After \<^verbatim>\<open>mm_init(); p = mm_malloc(200)\<close> the call
  \<^verbatim>\<open>mm_realloc(p, 16)\<close> returns \<open>p\<close>, whose block has 208 bytes; the adjusted size plus the
  buffer is 152, so the final slack is 56, below 256.  The header of the next physical
  block (the epilogue, at \<open>0x204C\<close>) still has its reallocation bit clear on return: the
  heap is the one before the call.
\<close>

theorem realloc_leaves_next_untagged:
  "mm_init arena = Some (0, heap_init) \<and>
   mm_malloc heap_init 200 = Some (0x1F80, heap_p) \<and>
   mm_realloc heap_p 0x1F80 16 = Some (0x1F80, heap_p) \<and>
   GET_SIZE heap_p (HDRP 0x1F80) = Some 208 \<and>
   adjusted_size 16 + REALLOC_BUFFER = 152 \<and>
   NEXT_BLKP heap_p 0x1F80 = Some 0x2050 \<and>
   GET heap_p (HDRP 0x2050) = Some 1 \<and>
   GET_TAG heap_p (HDRP 0x2050) = Some 0"
proof -
  have "mm_realloc heap_p 0x1F80 16 = Some (0x1F80, heap_p)"
    by (simp add: run_defs heap_p_def)
  moreover have "GET_SIZE heap_p (HDRP 0x1F80) = Some 208"
    and "adjusted_size 16 + REALLOC_BUFFER = 152"
    and "NEXT_BLKP heap_p 0x1F80 = Some 0x2050"
    and "GET heap_p (HDRP 0x2050) = Some 1"
    and "GET_TAG heap_p (HDRP 0x2050) = Some 0"
    by (simp_all add: run_defs heap_p_def)
  ultimately show ?thesis
    using run1_init run2_malloc_p by simp
qed

text \<open>
  C3 fails on the code.  In the heap reached by \<^verbatim>\<open>mm_init(); a = mm_malloc(16);
  b = mm_malloc(16)\<close>, let the header of \<open>b\<close>, the block after \<open>a\<close>, carry the reallocation
  tag, as a resize of \<open>a\<close> is specified to leave it.  After \<^verbatim>\<open>mm_free(a)\<close> the bit is still
  set: \<^verbatim>\<open>REMOVE_RATAG\<close> has read the header and stored nothing.  The same happens in a
  heap that calls alone have produced: at the end of the fifth run the header after the
  block of \<open>a\<close> has the bit set before \<^verbatim>\<open>mm_free(a)\<close> and after it.
\<close>

theorem free_keeps_next_tag:
  "mm_malloc heap_a 16 = Some (0x1028, heap_a_b) \<and>
   PUT_NOTAG heap_a_b (HDRP 0x1028) (41 OR 2) = Some heap_a_b_tagged \<and>
   NEXT_BLKP heap_a_b_tagged 0x1010 = Some 0x1028 \<and>
   GET_TAG heap_a_b_tagged (HDRP 0x1028) = Some 2 \<and>
   mm_free heap_a_b_tagged 0x1010 = Some heap_b_tagged_free_a \<and>
   GET_TAG heap_b_tagged_free_a (HDRP 0x1028) = Some 2 \<and>
   NEXT_BLKP stale_grown 0x1010 = Some 0x2050 \<and>
   GET_TAG stale_grown (HDRP 0x2050) = Some 2 \<and>
   mm_free stale_grown 0x1010 = Some stale_freed \<and>
   GET_TAG stale_freed (HDRP 0x2050) = Some 2"
proof -
  have "NEXT_BLKP heap_a_b_tagged 0x1010 = Some 0x1028"
    and "GET_TAG heap_a_b_tagged (HDRP 0x1028) = Some 2"
    and "GET_TAG heap_b_tagged_free_a (HDRP 0x1028) = Some 2"
    and "NEXT_BLKP stale_grown 0x1010 = Some 0x2050"
    and "GET_TAG stale_grown (HDRP 0x2050) = Some 2"
    and "GET_TAG stale_freed (HDRP 0x2050) = Some 2"
    by (simp_all add: access_defs const_defs heap_defs)
  then show ?thesis
    using run3_malloc_b run3_tag_b run3_free_a run5_free_a by simp
qed

section \<open>A refused heap extension\<close>

text \<open>
  C7 fails on the code in the relocation path.  On the small arena, after
  \<^verbatim>\<open>mm_init(); a = mm_malloc(16); b = mm_malloc(16)\<close>, the provider refuses every
  extension.  \<^verbatim>\<open>mm_malloc(100)\<close> returns \<^verbatim>\<open>NULL\<close>, and so does \<^verbatim>\<open>mm_realloc(b, 100)\<close>, which
  tries to grow in place (\<open>b\<close> is followed by the epilogue).  \<^verbatim>\<open>mm_realloc(a, 100)\<close> must
  relocate (\<open>a\<close> is followed by the allocated \<open>b\<close>): its \<^verbatim>\<open>mm_malloc\<close> returns \<^verbatim>\<open>NULL\<close>,
  which goes unchecked into \<^verbatim>\<open>memcpy\<close>, and the call does not return.
\<close>

theorem realloc_relocation_ignores_failure:
  "mm_init small_arena = Some (0, small_init) \<and>
   mm_malloc small_init 16 = Some (0x1010, small_a) \<and>
   mm_malloc small_a 16 = Some (0x1028, small_full) \<and>
   fst (mem_sbrk small_full CHUNKSIZE) = - 1 \<and>
   mm_malloc small_full 100 = Some (0, small_full) \<and>
   mm_realloc small_full 0x1028 100 = Some (0, small_full) \<and>
   mm_malloc small_full (adjusted_size 100 + REALLOC_BUFFER - DSIZE) = Some (0, small_full) \<and>
   mm_realloc small_full 0x1010 100 = None"
proof -
  have "fst (mem_sbrk small_full CHUNKSIZE) = - 1"
    and "mm_malloc small_full 100 = Some (0, small_full)"
    and "mm_realloc small_full 0x1028 100 = Some (0, small_full)"
    and "mm_malloc small_full (adjusted_size 100 + REALLOC_BUFFER - DSIZE) = Some (0, small_full)"
    and "mm_realloc small_full 0x1010 100 = None"
    by (simp_all add: run_defs small_full_def)
  then show ?thesis
    using run4_init run4_malloc_a run4_malloc_b by simp
qed

section \<open>The order of a free list\<close>

text \<open>
  C1 fails on the code.  After \<^verbatim>\<open>mm_init(); a = mm_malloc(16); b = mm_malloc(8);
  c = mm_malloc(16); mm_free(c); mm_free(a)\<close> the list of class 4 holds the two 24-byte
  blocks \<open>a = 0x1010\<close> and \<open>c = 0x1038\<close>.  Its head is \<open>a\<close>, the block freed last, and the
  \<^verbatim>\<open>PRED\<close> link of \<open>a\<close> leads to \<open>c\<close>, at the larger address, where the list ends: from the
  head the addresses go up, not down.
\<close>

theorem free_list_not_address_descending:
  "mm_init arena = Some (0, heap_init) \<and>
   mm_malloc heap_init 16 = Some (0x1010, heap_a) \<and>
   mm_malloc heap_a 8 = Some (0x1028, heap_ab) \<and>
   mm_malloc heap_ab 16 = Some (0x1038, heap_abc) \<and>
   mm_free heap_abc 0x1038 = Some heap_ab \<and>
   mm_free heap_ab 0x1010 = Some heap_b_free_c_a \<and>
   segregated_free_lists heap_b_free_c_a 4 = 0x1010 \<and>
   PRED heap_b_free_c_a 0x1010 = Some 0x1038 \<and>
   PRED heap_b_free_c_a 0x1038 = Some 0 \<and>
   (0x1010 :: word32) < 0x1038"
proof -
  have "segregated_free_lists heap_b_free_c_a 4 = 0x1010"
    and "PRED heap_b_free_c_a 0x1010 = Some 0x1038"
    and "PRED heap_b_free_c_a 0x1038 = Some 0"
    and "(0x1010 :: word32) < 0x1038"
    by (simp_all add: access_defs const_defs heap_defs)
  then show ?thesis
    using run1_init run1_malloc_a run1_malloc_b run1_malloc_c run1_free_c run1_free_a
    by simp
qed

section \<open>A reallocation bit read as set\<close>

text \<open>
  C9 fails on the code.  No store of the allocator sets a reallocation bit, but
  \<^verbatim>\<open>mm_realloc\<close> can make a header out of a word of payload.  In the fifth run, where the
  word at \<open>0x204C\<close> is 3 (stale memory, or data the client keeps in \<open>c\<close>), after
  \<^verbatim>\<open>mm_init(); a = mm_malloc(16); b = mm_malloc(16); c = mm_malloc(5000); mm_free(b);
  mm_realloc(a, 16)\<close> the block of \<open>a\<close> is allocated with size 4160: \<^verbatim>\<open>mm_realloc\<close> has
  grown it in place over the free \<open>b\<close> and by a heap extension that lies beyond the live
  block \<open>c\<close>, without checking that \<open>b\<close> is the last block.  The header of the block
  after \<open>a\<close> is then the word at \<open>0x204C\<close>, inside the payload of \<open>c\<close>, and its
  reallocation bit is set.
\<close>

theorem ra_bit_set_after_calls:
  "mm_init stale_arena = Some (0, stale_init) \<and>
   calls stale_init [Malloc 16, Malloc 16, Malloc 5000, Free 0x1028, Realloc 0x1010 16]
     = Some stale_grown \<and>
   GET stale_grown (HDRP 0x1010) = Some (PACK 4160 1) \<and>
   NEXT_BLKP stale_grown 0x1010 = Some 0x2050 \<and>
   GET_TAG stale_grown (HDRP 0x2050) = Some 2"
proof -
  have "calls stale_init [Malloc 16, Malloc 16, Malloc 5000, Free 0x1028, Realloc 0x1010 16]
      = Some stale_grown"
    by (simp add: run5_malloc_a run5_malloc_b run5_malloc_c run5_free_b run5_realloc_a)
  moreover have "GET stale_grown (HDRP 0x1010) = Some (PACK 4160 1)"
    and "NEXT_BLKP stale_grown 0x1010 = Some 0x2050"
    and "GET_TAG stale_grown (HDRP 0x2050) = Some 2"
    by (simp_all add: access_defs const_defs PACK_def stale_grown_def)
  ultimately show ?thesis
    using run5_init by simp
qed

section \<open>Contents of a resized block\<close>

text \<open>
  C6 fails on the code.  In the fifth run \<^verbatim>\<open>mm_realloc(a, 16)\<close> grows the block of \<open>a\<close> in
  place although its free neighbour \<open>b\<close> is not the last block: the heap is extended at
  the top, beyond \<open>c\<close>, and the header of \<open>a\<close> then claims 4160 bytes that reach over
  \<open>b\<close> and into \<open>c\<close>.  The next call, \<^verbatim>\<open>mm_realloc(a, 4200)\<close>, takes the word after that
  range for the header of a block of size 0 and unlinks it from a free list, following
  the two words \<open>c\<close> holds there: it returns \<open>a\<close> itself, and the words at \<open>a + 4\<close>
  and \<open>a + 8\<close>, inside the first 16 bytes of the payload, have changed.
\<close>

theorem realloc_changes_payload:
  "mm_init stale_arena = Some (0, stale_init) \<and>
   calls stale_init [Malloc 16, Malloc 16, Malloc 5000, Free 0x1028, Realloc 0x1010 16]
     = Some stale_grown \<and>
   GET_SIZE stale_grown (HDRP 0x1010) = Some 4160 \<and>
   mm_realloc stale_grown 0x1010 4200 = Some (0x1010, stale_regrown) \<and>
   load_byte stale_grown (0x1010 + 4) = Some 0 \<and>
   load_byte stale_regrown (0x1010 + 4) = Some 0x18 \<and>
   load_byte stale_grown (0x1010 + 8) = Some 0 \<and>
   load_byte stale_regrown (0x1010 + 8) = Some 0x10"
proof -
  have "calls stale_init [Malloc 16, Malloc 16, Malloc 5000, Free 0x1028, Realloc 0x1010 16]
      = Some stale_grown"
    by (simp add: run5_malloc_a run5_malloc_b run5_malloc_c run5_free_b run5_realloc_a)
  moreover have "GET_SIZE stale_grown (HDRP 0x1010) = Some 4160"
    and "load_byte stale_grown (0x1010 + 4) = Some 0"
    and "load_byte stale_regrown (0x1010 + 4) = Some 0x18"
    and "load_byte stale_grown (0x1010 + 8) = Some 0"
    and "load_byte stale_regrown (0x1010 + 8) = Some 0x10"
    by (simp_all add: access_defs const_defs heap_defs)
  ultimately show ?thesis
    using run5_init run5_realloc_again by simp
qed

section \<open>Unaligned words\<close>

text \<open>
  A word stored at any address is the word loaded from it, and the byte at an address is
  the low byte of the word there: the word view and the byte view of memory agree.
\<close>

lemma and3_cases:
  "(p :: word32) AND 3 = 0 \<or> p AND 3 = 1 \<or> p AND 3 = 2 \<or> p AND 3 = 3"
proof -
  have e: "p AND 3 = of_nat (unat (p AND 3))" by simp
  have "unat (p AND 3) < 4"
    by (simp add: and3_take_bit take_bit_eq_mod unat_mod)
  then have "unat (p AND 3) = 0 \<or> unat (p AND 3) = 1 \<or> unat (p AND 3) = 2 \<or> unat (p AND 3) = 3"
    by arith
  then show ?thesis
    using e by (elim disjE) simp_all
qed

lemma w8: "drop_bit 8 (take_bit 8 x OR push_bit 8 v) OR
    push_bit 24 (push_bit 8 (drop_bit 8 y) OR drop_bit 24 v) = (v :: word32)"
proof (rule bit_eqI)
  fix n
  show "bit (drop_bit 8 (take_bit 8 x OR push_bit 8 v) OR
    push_bit 24 (push_bit 8 (drop_bit 8 y) OR drop_bit 24 v)) n = bit v n"
    by (cases "n < 24") (auto simp: bit_simps dest: bit_imp_le_length)
qed

lemma w16: "drop_bit 16 (take_bit 16 x OR push_bit 16 v) OR
    push_bit 16 (push_bit 16 (drop_bit 16 y) OR drop_bit 16 v) = (v :: word32)"
proof (rule bit_eqI)
  fix n
  show "bit (drop_bit 16 (take_bit 16 x OR push_bit 16 v) OR
    push_bit 16 (push_bit 16 (drop_bit 16 y) OR drop_bit 16 v)) n = bit v n"
    by (cases "n < 16") (auto simp: bit_simps dest: bit_imp_le_length)
qed

lemma w24: "drop_bit 24 (take_bit 24 x OR push_bit 24 v) OR
    push_bit 8 (push_bit 24 (drop_bit 24 y) OR drop_bit 8 v) = (v :: word32)"
proof (rule bit_eqI)
  fix n
  show "bit (drop_bit 24 (take_bit 24 x OR push_bit 24 v) OR
    push_bit 8 (push_bit 24 (drop_bit 24 y) OR drop_bit 8 v)) n = bit v n"
    by (cases "n < 8") (auto simp: bit_simps dest: bit_imp_le_length)
qed

lemma load_store_word: "load_word (store_word m p v) p = v"
  using and3_cases [of p] w8 w16 w24
  by (auto simp: load_word_def store_word_def Let_def)

lemma low_byte:
  "8 \<le> k \<Longrightarrow> (ucast (x OR push_bit k (y :: word32)) :: 8 word) = ucast x"
  by (rule bit_eqI) (auto simp: bit_simps)

lemma load_byte_of_word:
  "valid_byte s p \<Longrightarrow> load_byte s p = Some (ucast (load_word (mem s) p))"
  using and3_cases [of p]
  by (auto simp: load_byte_def load_word_def Let_def low_byte)

section \<open>Size classes\<close>

lemma select_list_ge: "list \<le> fst (select_list list sz)"
  by (induction list sz rule: select_list.induct) (subst select_list.simps, auto)

lemma select_list_small:
  "fst (select_list list sz) < LISTLIMIT - 1 \<Longrightarrow> snd (select_list list sz) \<le> 1"
proof (induction list sz rule: select_list.induct)
  case (1 list sz)
  show ?case
  proof (cases "list < LISTLIMIT - 1 \<and> sz > 1")
    case True
    then have eq: "select_list list sz = select_list (list + 1) (drop_bit 1 sz)"
      by (subst select_list.simps) auto
    show ?thesis
      using "1.IH" [OF True] "1.prems" by (simp add: eq)
  next
    case False
    then have eq: "select_list list sz = (list, sz)"
      by (subst select_list.simps) auto
    show ?thesis
      using False "1.prems" by (auto simp: eq not_less)
  qed
qed

lemma select_list_shift:
  "snd (select_list list sz) = drop_bit (fst (select_list list sz) - list) sz"
proof (induction list sz rule: select_list.induct)
  case (1 list sz)
  show ?case
  proof (cases "list < LISTLIMIT - 1 \<and> sz > 1")
    case True
    then have eq: "select_list list sz = select_list (list + 1) (drop_bit 1 sz)"
      by (subst select_list.simps) auto
    have "Suc list \<le> fst (select_list (list + 1) (drop_bit 1 sz))"
      using select_list_ge [of "list + 1"] by simp
    then have "fst (select_list (list + 1) (drop_bit 1 sz)) - (list + 1) + 1 =
        fst (select_list (list + 1) (drop_bit 1 sz)) - list"
      by simp
    then show ?thesis
      using "1.IH" [OF True] by (simp add: eq drop_bit_drop_bit add.commute)
  next
    case False
    then have eq: "select_list list sz = (list, sz)"
      by (subst select_list.simps) auto
    show ?thesis
      by (simp add: eq)
  qed
qed

lemma select_list_last:
  "list < LISTLIMIT - 1 \<Longrightarrow> fst (select_list list sz) = LISTLIMIT - 1 \<Longrightarrow>
   drop_bit (LISTLIMIT - 2 - list) sz > 1"
proof (induction list sz rule: select_list.induct)
  case (1 list sz)
  show ?case
  proof (cases "list < LISTLIMIT - 1 \<and> sz > 1")
    case True
    then have eq: "select_list list sz = select_list (list + 1) (drop_bit 1 sz)"
      by (subst select_list.simps) auto
    show ?thesis
    proof (cases "list + 1 < LISTLIMIT - 1")
      case True
      have "drop_bit (LISTLIMIT - 2 - (list + 1)) (drop_bit 1 sz) > 1"
        using "1.IH" [OF \<open>list < LISTLIMIT - 1 \<and> sz > 1\<close> True] "1.prems"(2) by (simp add: eq)
      moreover have "LISTLIMIT - 2 - (list + 1) + 1 = LISTLIMIT - 2 - list"
        using True by simp
      ultimately show ?thesis
        by (simp add: drop_bit_drop_bit add.commute)
    next
      case False
      then have "LISTLIMIT - 2 - list = 0"
        by simp
      then show ?thesis
        using \<open>list < LISTLIMIT - 1 \<and> sz > 1\<close> by simp
    qed
  next
    case False
    then have eq: "select_list list sz = (list, sz)"
      by (subst select_list.simps) auto
    show ?thesis
      using "1.prems" by (simp add: eq)
  qed
qed


lemma select_list_bound: "list < LISTLIMIT \<Longrightarrow> fst (select_list list sz) < LISTLIMIT"
  by (induction list sz rule: select_list.induct) (simp add: select_list.simps LISTLIMIT_def)

lemma same_class_stops_walk:
  assumes "fst (select_list 0 h) = fst (select_list 0 sz)" and "h \<noteq> 0"
  shows "\<not> snd (select_list 0 sz) > h"
proof (cases "fst (select_list 0 sz) < LISTLIMIT - 1")
  case True
  then have "snd (select_list 0 sz) \<le> 1"
    by (rule select_list_small)
  moreover have "1 \<le> h"
    using assms(2) by (simp add: word_le_nat_alt unat_gt_0 Suc_leI)
  ultimately show ?thesis
    by simp
next
  case False
  moreover have "fst (select_list 0 sz) < LISTLIMIT"
    by (rule select_list_bound) (simp add: LISTLIMIT_def)
  ultimately have last: "fst (select_list 0 sz) = LISTLIMIT - 1"
    by simp
  then have "drop_bit (LISTLIMIT - 2 - 0) h > 1"
    using assms(1) by (intro select_list_last) (simp_all add: LISTLIMIT_def)
  then have "1 < unat h div 2 ^ 18"
    by (simp add: LISTLIMIT_def word_less_nat_alt drop_bit_eq_div unat_div)
  then have big: "2 ^ 19 \<le> unat h"
    by simp
  have "snd (select_list 0 sz) = drop_bit 19 sz"
    using select_list_shift [of 0 sz] last by (simp add: LISTLIMIT_def)
  then have "unat (snd (select_list 0 sz)) = unat sz div 2 ^ 19"
    by (simp add: drop_bit_eq_div unat_div)
  moreover have "unat sz < 2 ^ 32"
    using unsigned_less [of sz] by simp
  ultimately have "unat (snd (select_list 0 sz)) < 2 ^ 19"
    by simp
  then show ?thesis
    using big by (simp add: word_less_nat_alt)
qed

section \<open>Aligned words and block addresses\<close>

lemma and_not3_aligned: assumes "(p :: word32) AND 3 = 0" shows "p AND NOT 3 = p"
proof -
  have "p = p AND (3 OR NOT 3)" by simp
  also have "\<dots> = (p AND 3) OR (p AND NOT 3)" by (simp only: bit.conj_disj_distrib)
  finally show ?thesis using assms by simp
qed

lemma and_minus4_aligned: "(p :: word32) AND 3 = 0 \<Longrightarrow> p AND - 4 = p"
  using and_not3_aligned [of p] by simp

lemma load_word_aligned: "p AND 3 = 0 \<Longrightarrow> load_word m p = m p"
  by (simp add: load_word_def and_minus4_aligned)

lemma store_word_aligned: "p AND 3 = 0 \<Longrightarrow> store_word m p v = m(p := v)"
  by (simp add: store_word_def and_minus4_aligned)

lemma GET_aligned: "aligned_word s p \<Longrightarrow> GET s p = Some (mem s p)"
  by (simp add: GET_def aligned_word_def load_word_aligned)

lemma PUT_NOTAG_aligned:
  "aligned_word s p \<Longrightarrow> PUT_NOTAG s p v = Some (s\<lparr>mem := (mem s)(p := v)\<rparr>)"
  by (simp add: PUT_NOTAG_def aligned_word_def store_word_aligned)

lemma SET_PTR_aligned:
  "aligned_word s p \<Longrightarrow> SET_PTR s p v = Some (s\<lparr>mem := (mem s)(p := v)\<rparr>)"
  by (simp add: SET_PTR_def aligned_word_def store_word_aligned)

lemma aligned_word_mem [simp]: "aligned_word (s\<lparr>mem := m\<rparr>) a = aligned_word s a"
  by (simp add: aligned_word_def valid_word_def)

lemma al8_unat: assumes "(x :: word32) AND 7 = 0" shows "8 dvd unat x"
proof -
  have "take_bit 3 x = 0" using assms by (simp add: and7_take_bit)
  then have "unat (take_bit 3 x) = 0" by simp
  then have "unat x mod 8 = 0" by (simp add: take_bit_eq_mod unat_mod)
  then show ?thesis by presburger
qed

lemma unat_minus4: "4 \<le> unat (x :: word32) \<Longrightarrow> unat (x - 4) = unat x - 4"
  by unat_arith

lemma unat_minus8: "8 \<le> unat (x :: word32) \<Longrightarrow> unat (x - 8) = unat x - 8"
  by unat_arith

lemma unat_minus: "unat y \<le> unat (x :: word32) \<Longrightarrow> unat (x - y) = unat x - unat y"
  by unat_arith

lemma unat_plus: "unat (x :: word32) + unat y \<le> unat (m :: word32) \<Longrightarrow> unat (x + y) = unat x + unat y"
  using unat_add_lem [of x y] unsigned_less [of m, where 'a = nat] by simp

lemma unat_plus4: "unat (x :: word32) + 4 \<le> unat (m :: word32) \<Longrightarrow> unat (x + 4) = unat x + 4"
  using unat_plus [of x 4 m] by simp

lemma valid_in_block:
  assumes "block_in_arena s x sz" "a AND 3 = 0" "unat x \<le> unat a + 4" "unat a + 4 \<le> unat x + unat sz"
  shows "aligned_word s a"
  using assms by (simp add: aligned_word_def valid_word_def block_in_arena_def)

lemma block_nat:
  assumes "block_in_arena s x sz"
  shows "4 \<le> unat x" and "unat (HDRP x) = unat x - 4" and "unat (SUCC_PTR x) = unat x + 4"
    and "unat (x + sz) = unat x + unat sz" and "unat (x + sz - DSIZE) = unat x + unat sz - 8"
    and "8 dvd unat x" and "8 dvd unat sz" and "16 \<le> unat sz" and "x \<noteq> 0"
    and "unat (HDRP (x + sz)) = unat x + unat sz - 4"
proof -
  have b: "unat (mem_start_brk s) + 4 \<le> unat x" "unat x + unat sz \<le> unat (mem_max_addr s)"
    "16 \<le> unat sz" "x AND 7 = 0" "sz AND 7 = 0"
    using assms by (simp_all add: block_in_arena_def)
  show 4: "4 \<le> unat x" using b by simp
  show "unat (HDRP x) = unat x - 4" using 4 by (simp add: HDRP_def WSIZE_def unat_minus4)
  show "unat (SUCC_PTR x) = unat x + 4"
    using b unat_plus4 [of x "mem_max_addr s"] by (simp add: SUCC_PTR_def WSIZE_def)
  show p: "unat (x + sz) = unat x + unat sz" using b by (simp add: unat_plus)
  show "unat (x + sz - DSIZE) = unat x + unat sz - 8"
    using b p unat_minus8 [of "x + sz"] by (simp add: DSIZE_def)
  show "unat (HDRP (x + sz)) = unat x + unat sz - 4"
    using b p unat_minus4 [of "x + sz"] by (simp add: HDRP_def WSIZE_def)
  show "8 dvd unat x" "8 dvd unat sz" using b by (simp_all add: al8_unat)
  show "16 \<le> unat sz" using b by simp
  show "x \<noteq> 0" using 4 by auto
qed

lemma block_valid:
  assumes "block_in_arena s x sz"
  shows "aligned_word s x" and "aligned_word s (HDRP x)" and "aligned_word s (SUCC_PTR x)"
    and "aligned_word s (x + sz - DSIZE)" and "aligned_word s (HDRP (x + sz))"
proof -
  have a: "x AND 7 = 0" "sz AND 7 = 0" using assms by (simp_all add: block_in_arena_def)
  have a4: "x AND 3 = 0" "sz AND 3 = 0" "(4 :: word32) AND 3 = 0" "(8 :: word32) AND 3 = 0"
    using a by (simp_all add: al8_al4)
  note n = block_nat [OF assms]
  show "aligned_word s x" using n a4 by (intro valid_in_block [OF assms]) simp_all
  show "aligned_word s (HDRP x)"
    using n al4_diff [OF a4(1) a4(3)] by (intro valid_in_block [OF assms]) (simp_all add: HDRP_def WSIZE_def)
  show "aligned_word s (SUCC_PTR x)"
    using n al4_add [OF a4(1) a4(3)] by (intro valid_in_block [OF assms]) (simp_all add: SUCC_PTR_def WSIZE_def)
  show "aligned_word s (x + sz - DSIZE)"
    using n al4_diff [OF al4_add [OF a4(1) a4(2)] a4(4)]
    by (intro valid_in_block [OF assms]) (simp_all add: DSIZE_def)
  show "aligned_word s (HDRP (x + sz))"
    using n al4_diff [OF al4_add [OF a4(1) a4(2)] a4(3)]
    by (intro valid_in_block [OF assms]) (simp_all add: HDRP_def WSIZE_def)
qed

section \<open>List insertion and deletion on a well-formed directory\<close>

lemma insert_search_stop:
  assumes "h \<noteq> 0 \<Longrightarrow> aligned_word s (HDRP h) \<and> \<not> sz > (mem s (HDRP h) AND NOT 7)"
  shows "insert_search walk_bound s sz h 0 = Some (h, 0)"
proof -
  obtain n where n: "walk_bound = Suc n"
    by (cases walk_bound) (simp_all add: walk_bound_def)
  have "insert_search (Suc n) s sz h 0 = Some (h, 0)"
    using assms by (simp add: GET_SIZE_def GET_aligned)
  then show ?thesis
    unfolding n .
qed

lemma insert_node_result:
  assumes B: "aligned_word s (PRED_PTR B)" "aligned_word s (SUCC_PTR B)"
    and k: "fst (select_list 0 sz) = k"
    and h: "segregated_free_lists s k = h"
    and hd: "h \<noteq> 0 \<Longrightarrow> aligned_word s (HDRP h) \<and> aligned_word s (SUCC_PTR h) \<and>
               \<not> snd (select_list 0 sz) > (mem s (HDRP h) AND NOT 7)"
  shows "insert_node s B sz =
     Some (s\<lparr>mem := (\<lambda>a. if a = SUCC_PTR B then 0
                          else if h \<noteq> 0 \<and> a = SUCC_PTR h then B
                          else if a = PRED_PTR B then h else mem s a),
             segregated_free_lists := (segregated_free_lists s)(k := B)\<rparr>)"
proof -
  obtain sh where sl: "select_list 0 sz = (k, sh)" using k by (cases "select_list 0 sz") auto
  have v: "aligned_word (s\<lparr>mem := m\<rparr>) a = aligned_word s a" for m a
    by (simp add: aligned_word_def valid_word_def)
  show ?thesis
  proof (cases "h = 0")
    case True
    then show ?thesis
      using B h sl
      by (simp add: insert_node_def insert_search_stop SET_PTR_aligned PRED_PTR_def set_list_def
          fun_eq_iff v)
  next
    case False
    then show ?thesis
      using B h sl hd
      by (simp add: insert_node_def insert_search_stop SET_PTR_aligned PRED_PTR_def set_list_def
          fun_eq_iff v)
  qed
qed

lemma delete_node_result:
  assumes B: "aligned_word s (HDRP B)" "aligned_word s (PRED_PTR B)" "aligned_word s (SUCC_PTR B)"
    and k: "fst (select_list 0 (mem s (HDRP B) AND NOT 7)) = k"
    and pred: "mem s (PRED_PTR B) = pred" and succ: "mem s (SUCC_PTR B) = succ"
    and p: "pred \<noteq> 0 \<Longrightarrow> aligned_word s (SUCC_PTR pred) \<and> SUCC_PTR pred \<noteq> PRED_PTR B \<and>
              SUCC_PTR pred \<noteq> SUCC_PTR B"
    and q: "succ \<noteq> 0 \<Longrightarrow> aligned_word s (PRED_PTR succ)"
  shows "delete_node s B =
     Some (s\<lparr>mem := (\<lambda>a. if succ \<noteq> 0 \<and> a = PRED_PTR succ then pred
                          else if pred \<noteq> 0 \<and> a = SUCC_PTR pred then succ else mem s a),
             segregated_free_lists := (segregated_free_lists s)
                (k := if succ = 0 then pred else segregated_free_lists s k)\<rparr>)"
proof -
  obtain sh where sl: "select_list 0 (mem s (HDRP B) AND NOT 7) = (k, sh)"
    using k by (cases "select_list 0 (mem s (HDRP B) AND NOT 7)") auto
  have v: "aligned_word (s\<lparr>mem := m\<rparr>) a = aligned_word s a" for m a
    by (simp add: aligned_word_def valid_word_def)
  show ?thesis
    using B pred succ sl p q
    by (cases "pred = 0"; cases "succ = 0")
      (simp_all add: delete_node_def GET_SIZE_def GET_aligned PRED_def SUCC_def SET_PTR_aligned
        PRED_PTR_def set_list_def fun_eq_iff v)
qed

lemma al8_plus4_neq:
  assumes "(x :: word32) AND 7 = 0" "y AND 7 = 0" shows "SUCC_PTR x \<noteq> PRED_PTR y"
proof
  assume "SUCC_PTR x = PRED_PTR y"
  then have "y = x + 4" by (simp add: SUCC_PTR_def PRED_PTR_def WSIZE_def)
  then have "y - x = 4" by simp
  moreover have "(y - x) AND 7 = 0" using assms by (simp add: al8_diff)
  ultimately show False by simp
qed

lemma succ_ptr_inj: "SUCC_PTR x = SUCC_PTR y \<longleftrightarrow> x = y"
  by (simp add: SUCC_PTR_def)

lemma chain_frame:
  assumes "chain s sc p xs"
    and "\<forall>x\<in>set xs. mem s' (PRED_PTR x) = mem s (PRED_PTR x) \<and>
                      mem s' (SUCC_PTR x) = mem s (SUCC_PTR x)"
  shows "chain s' sc p xs"
  using assms by (induction xs arbitrary: sc p) auto

lemma chain_nonzero: "chain s sc p xs \<Longrightarrow> 0 \<notin> set xs"
  by (induction xs arbitrary: sc p) auto

lemma chain_head: "chain s sc p xs \<Longrightarrow> p = hd (xs @ [0])"
  by (cases xs) auto

lemma chain_mid:
  "chain s sc p (pfx @ B # sfx) \<Longrightarrow>
     mem s (SUCC_PTR B) = last (sc # pfx) \<and> mem s (PRED_PTR B) = hd (sfx @ [0])"
proof (induction pfx arbitrary: sc p)
  case Nil
  then show ?case by (auto dest: chain_head)
next
  case (Cons x pfx)
  then show ?case by (cases pfx) auto
qed

lemma chain_cons:
  assumes c: "chain s 0 h xs"
    and al: "\<forall>x\<in>set xs. x AND 7 = 0" "B AND 7 = 0"
    and new: "B \<notin> set xs" "B \<noteq> 0" and dist: "distinct xs"
    and m: "mem s' = (\<lambda>a. if a = SUCC_PTR B then 0
                          else if h \<noteq> 0 \<and> a = SUCC_PTR h then B
                          else if a = PRED_PTR B then h else mem s a)"
  shows "chain s' 0 B (B # xs)"
proof (cases xs)
  case Nil
  then show ?thesis using c new m al8_plus4_neq [OF al(2) al(2)] by (simp add: PRED_PTR_def)
next
  case (Cons y ys)
  then have y: "h = y" "y \<noteq> 0" "mem s (SUCC_PTR y) = 0" "chain s y (mem s (PRED_PTR y)) ys"
    using c by auto
  have ay: "y AND 7 = 0" and yB: "y \<noteq> B" using al new Cons by auto
  have my: "mem s' (PRED_PTR y) = mem s (PRED_PTR y)"
    using m y yB al8_plus4_neq [OF al(2) ay] al8_plus4_neq [OF ay ay]
    by (auto simp: PRED_PTR_def)
  have "chain s' y (mem s (PRED_PTR y)) ys"
  proof (rule chain_frame [OF y(4)], intro ballI conjI)
    fix x assume x: "x \<in> set ys"
    then have ax: "x AND 7 = 0" and xB: "x \<noteq> B" and xy: "x \<noteq> y"
      using al new Cons dist by auto
    show "mem s' (PRED_PTR x) = mem s (PRED_PTR x)"
      using m xB y(1) al8_plus4_neq [OF al(2) ax] al8_plus4_neq [OF ay ax]
      by (auto simp: PRED_PTR_def)
    show "mem s' (SUCC_PTR x) = mem s (SUCC_PTR x)"
      using m xB xy y(1) al8_plus4_neq [OF ax al(2)]
      by (auto simp: succ_ptr_inj)
  qed
  then show ?thesis
    using Cons y new m my al8_plus4_neq [OF al(2) al(2)] al8_plus4_neq [OF ay al(2)]
    by (auto simp: succ_ptr_inj PRED_PTR_def)
qed

lemma succ_ptr_neq:
  "(x :: word32) AND 7 = 0 \<Longrightarrow> y AND 7 = 0 \<Longrightarrow> SUCC_PTR x \<noteq> y"
  using al8_plus4_neq [of x y] by (simp add: PRED_PTR_def)

lemma chain_remove:
  assumes c: "chain s sc p (pfx @ B # sfx)"
    and al: "\<forall>x\<in>set (pfx @ B # sfx). x AND 7 = 0" "sc AND 7 = 0"
    and dist: "distinct (pfx @ B # sfx)" "sc \<notin> set (pfx @ B # sfx)"
    and succ: "succ = last (sc # pfx)" and pred: "pred = hd (sfx @ [0])"
    and m: "mem s' = (\<lambda>a. if succ \<noteq> 0 \<and> a = PRED_PTR succ then pred
                          else if pred \<noteq> 0 \<and> a = SUCC_PTR pred then succ else mem s a)"
  shows "chain s' sc (if pfx = [] then pred else p) (pfx @ sfx)"
  using c al dist succ
proof (induction pfx arbitrary: sc p)
  case Nil
  then have sc: "succ = sc" and B: "mem s (SUCC_PTR B) = sc" "chain s B (mem s (PRED_PTR B)) sfx"
    by auto
  show ?case
  proof (cases sfx)
    case Nil
    then show ?thesis using pred by simp
  next
    case (Cons q qs)
    then have q: "pred = q" "q \<noteq> 0" "chain s q (mem s (PRED_PTR q)) qs"
      using pred B by auto
    have aq: "q AND 7 = 0" and qsc: "q \<noteq> sc" using Nil.prems Cons by auto
    have 1: "mem s' (SUCC_PTR q) = sc"
      using m q sc succ_ptr_neq [OF aq Nil.prems(3)] by (simp add: PRED_PTR_def)
    have 2: "mem s' (PRED_PTR q) = mem s (PRED_PTR q)"
      using m q sc qsc succ_ptr_neq [OF aq aq] by (auto simp: PRED_PTR_def)
    have "chain s' q (mem s (PRED_PTR q)) qs"
    proof (rule chain_frame [OF q(3)], intro ballI conjI)
      fix x assume x: "x \<in> set qs"
      then have ax: "x AND 7 = 0" and xs: "x \<noteq> sc" "x \<noteq> q"
        using Nil.prems Cons by auto
      show "mem s' (PRED_PTR x) = mem s (PRED_PTR x)"
        using m q sc xs succ_ptr_neq [OF aq ax] by (auto simp: PRED_PTR_def)
      show "mem s' (SUCC_PTR x) = mem s (SUCC_PTR x)"
        using m q sc xs succ_ptr_neq [OF ax Nil.prems(3)] by (auto simp: PRED_PTR_def succ_ptr_inj)
    qed
    then show ?thesis using Cons q 1 2 by simp
  qed
next
  case (Cons x pfx)
  have x: "p = x" "x \<noteq> 0" "mem s (SUCC_PTR x) = sc"
    "chain s x (mem s (PRED_PTR x)) (pfx @ B # sfx)"
    using Cons.prems(1) by auto
  have ax: "x AND 7 = 0" using Cons.prems(2) by simp
  have ih: "chain s' x (if pfx = [] then pred else mem s (PRED_PTR x)) (pfx @ sfx)"
    using Cons.prems by (intro Cons.IH [OF x(4)]) auto
  have su: "succ \<in> set (x # pfx)" "succ AND 7 = 0" "succ = x \<longleftrightarrow> pfx = []"
    using Cons.prems by (auto simp: last_in_set)
  have pr: "pred = 0 \<or> pred \<in> set sfx"
    using pred by (cases sfx) auto
  then have pa: "pred AND 7 = 0" "pred \<noteq> x" using Cons.prems x(2) by auto
  have 1: "mem s' (SUCC_PTR x) = sc"
    using m x succ_ptr_neq [OF ax su(2)] pa by (auto simp: PRED_PTR_def succ_ptr_inj)
  have 2: "mem s' (PRED_PTR x) = (if pfx = [] then pred else mem s (PRED_PTR x))"
    using m x su(3) succ_ptr_neq [OF pa(1) ax] by (auto simp: PRED_PTR_def)
  show ?case using x ih 1 2 by simp
qed

lemma in_block_valid:
  assumes "block_in_arena s x sx" "in_block x sx a"
  shows "aligned_word s a"
  using assms by (simp add: aligned_word_def valid_word_def block_in_arena_def in_block_def)

lemma apart_neq:
  assumes "in_block x sx a" "in_block y sy b" "apart x sx y sy"
  shows "a \<noteq> b"
  using assms by (auto simp: in_block_def apart_def)

lemma block_in_block:
  assumes "block_in_arena s x sx"
  shows "in_block x sx (HDRP x)" and "in_block x sx (PRED_PTR x)" and "in_block x sx (SUCC_PTR x)"
    and "in_block x sx (x + sx - DSIZE)"
  using block_nat [OF assms] block_valid [OF assms]
  by (simp_all add: in_block_def aligned_word_def valid_word_def PRED_PTR_def)

lemma block_words_neq:
  assumes "block_in_arena s x sx"
  shows "HDRP x \<noteq> PRED_PTR x" and "HDRP x \<noteq> SUCC_PTR x" and "PRED_PTR x \<noteq> SUCC_PTR x"
    and "x + sx - DSIZE \<noteq> HDRP x" and "x + sx - DSIZE \<noteq> PRED_PTR x"
    and "x + sx - DSIZE \<noteq> SUCC_PTR x"
  using block_nat [OF assms] by (auto simp: PRED_PTR_def)

lemma wf_free:
  "wf_lists s L \<Longrightarrow> k < LISTLIMIT \<Longrightarrow> x \<in> set (L k) \<Longrightarrow> free_block s k x"
  by (simp add: wf_lists_def)

lemma wf_block:
  "wf_lists s L \<Longrightarrow> k < LISTLIMIT \<Longrightarrow> x \<in> set (L k) \<Longrightarrow>
     block_in_arena s x (block_size s x)"
  by (simp add: wf_lists_def free_block_def)

lemma wf_al8:
  "wf_lists s L \<Longrightarrow> k < LISTLIMIT \<Longrightarrow> x \<in> set (L k) \<Longrightarrow> x AND 7 = 0"
  by (simp add: wf_lists_def free_block_def block_in_arena_def)

lemma wf_class:
  "wf_lists s L \<Longrightarrow> j < LISTLIMIT \<Longrightarrow> k < LISTLIMIT \<Longrightarrow> x \<in> set (L j) \<Longrightarrow>
     x \<in> set (L k) \<Longrightarrow> j = k"
  using wf_free [of s L j x] wf_free [of s L k x] by (simp add: free_block_def)

lemma wf_apart:
  "wf_lists s L \<Longrightarrow> j < LISTLIMIT \<Longrightarrow> k < LISTLIMIT \<Longrightarrow> x \<in> set (L j) \<Longrightarrow>
     y \<in> set (L k) \<Longrightarrow> x \<noteq> y \<Longrightarrow> apart x (block_size s x) y (block_size s y)"
  by (simp add: wf_lists_def)

lemma wf_chain:
  "wf_lists s L \<Longrightarrow> k < LISTLIMIT \<Longrightarrow> chain s 0 (segregated_free_lists s k) (L k)"
  by (simp add: wf_lists_def)

lemma wf_distinct: "wf_lists s L \<Longrightarrow> k < LISTLIMIT \<Longrightarrow> distinct (L k)"
  by (simp add: wf_lists_def)

lemma in_block_not_link:
  assumes wf: "wf_lists s L" and j: "j < LISTLIMIT" and x: "x \<in> set (L j)"
    and a: "in_block x (block_size s x) a" "a \<noteq> PRED_PTR x" "a \<noteq> SUCC_PTR x"
  shows "\<not> link_word L a"
proof
  assume "link_word L a"
  then obtain k y where k: "k < LISTLIMIT" and y: "y \<in> set (L k)"
    and e: "a = PRED_PTR y \<or> a = SUCC_PTR y"
    by (auto simp: link_word_def)
  have xy: "x \<noteq> y" using a e by auto
  note ib = block_in_block [OF wf_block [OF wf k y]]
  show False
    using e apart_neq [OF a(1) ib(2) wf_apart [OF wf j k x y xy]]
      apart_neq [OF a(1) ib(3) wf_apart [OF wf j k x y xy]]
    by auto
qed

lemma header_not_link:
  assumes wf: "wf_lists s L" and j: "j < LISTLIMIT" and x: "x \<in> set (L j)"
  shows "\<not> link_word L (HDRP x)"
  using in_block_not_link [OF assms block_in_block(1) [OF wf_block [OF assms]]]
    block_words_neq [OF wf_block [OF assms]] by simp

lemma free_block_cong:
  assumes "same_arena s s'" "mem s' (HDRP x) = mem s (HDRP x)"
  shows "free_block s' k x = free_block s k x" and "block_size s' x = block_size s x"
  using assms by (simp_all add: free_block_def block_size_def block_in_arena_def same_arena_def)

lemma wf_listsI:
  assumes "\<And>k. k < LISTLIMIT \<Longrightarrow> chain s 0 (segregated_free_lists s k) (L k)"
    and "\<And>k. k < LISTLIMIT \<Longrightarrow> distinct (L k)"
    and "\<And>k x. k < LISTLIMIT \<Longrightarrow> x \<in> set (L k) \<Longrightarrow> free_block s k x"
    and "\<And>j k x y. j < LISTLIMIT \<Longrightarrow> k < LISTLIMIT \<Longrightarrow> x \<in> set (L j) \<Longrightarrow>
           y \<in> set (L k) \<Longrightarrow> x \<noteq> y \<Longrightarrow> apart x (block_size s x) y (block_size s y)"
  shows "wf_lists s L"
  unfolding wf_lists_def using assms by blast

lemma wf_delete:
  assumes wf: "wf_lists s L" and k: "k < LISTLIMIT" and B: "B \<in> set (L k)"
  shows "\<exists>s'. delete_node s B = Some s' \<and> wf_lists s' (L(k := remove1 B (L k))) \<and>
           same_arena s s' \<and>
           (\<forall>a. \<not> link_word (L(k := remove1 B (L k))) a \<longrightarrow> mem s' a = mem s a)"
proof -
  obtain pfx sfx where sp: "L k = pfx @ B # sfx"
    using B by (auto dest: split_list)
  have dk: "distinct (pfx @ B # sfx)" using wf_distinct [OF wf k] sp by simp
  have ch: "chain s 0 (segregated_free_lists s k) (pfx @ B # sfx)"
    using wf_chain [OF wf k] sp by simp
  have nz: "0 \<notin> set (pfx @ B # sfx)" using chain_nonzero [OF ch] .
  define succ where "succ = last (0 # pfx)"
  define pred where "pred = hd (sfx @ [0])"
  have mid: "mem s (SUCC_PTR B) = succ" "mem s (PRED_PTR B) = pred"
    using chain_mid [OF ch] by (simp_all add: succ_def pred_def)
  have su: "succ \<in> set (L k)" "succ \<noteq> B" if "succ \<noteq> 0"
    using that dk sp by (auto simp: succ_def split: if_splits)
  have "last pfx \<noteq> 0" if "pfx \<noteq> []"
    using last_in_set [OF that] nz by auto
  then have su0: "succ = 0 \<longleftrightarrow> pfx = []"
    by (auto simp: succ_def)
  have pr: "pred \<in> set (L k)" "pred \<noteq> B" if "pred \<noteq> 0"
    using that dk sp by (cases sfx; auto simp: pred_def)+
  have Bb: "block_in_arena s B (block_size s B)" using wf_block [OF wf k B] .
  have cls: "fst (select_list 0 (mem s (HDRP B) AND NOT 7)) = k"
    using wf_free [OF wf k B] by (simp add: free_block_def block_size_def)
  note vB = block_valid [OF Bb]
  have p: "aligned_word s (SUCC_PTR pred) \<and> SUCC_PTR pred \<noteq> PRED_PTR B \<and>
             SUCC_PTR pred \<noteq> SUCC_PTR B" if "pred \<noteq> 0"
    using block_valid(3) [OF wf_block [OF wf k pr(1) [OF that]]] pr(2) [OF that]
      al8_plus4_neq [OF wf_al8 [OF wf k pr(1) [OF that]] wf_al8 [OF wf k B]]
    by (simp add: succ_ptr_inj)
  have q: "aligned_word s (PRED_PTR succ)" if "succ \<noteq> 0"
    using block_valid(1) [OF wf_block [OF wf k su(1) [OF that]]] by (simp add: PRED_PTR_def)
  define s' where "s' = s\<lparr>mem := (\<lambda>a. if succ \<noteq> 0 \<and> a = PRED_PTR succ then pred
                          else if pred \<noteq> 0 \<and> a = SUCC_PTR pred then succ else mem s a),
             segregated_free_lists := (segregated_free_lists s)
                (k := if succ = 0 then pred else segregated_free_lists s k)\<rparr>"
  have del: "delete_node s B = Some s'"
    unfolding s'_def using vB(2) vB(1) vB(3) cls mid(2) mid(1) p q
    by (intro delete_node_result) (simp_all add: PRED_PTR_def)
  have ms: "mem s' = (\<lambda>a. if succ \<noteq> 0 \<and> a = PRED_PTR succ then pred
                          else if pred \<noteq> 0 \<and> a = SUCC_PTR pred then succ else mem s a)"
    and ls: "segregated_free_lists s' = (segregated_free_lists s)
                (k := if succ = 0 then pred else segregated_free_lists s k)"
    and ar: "same_arena s s'"
    by (simp_all add: s'_def same_arena_def)
  let ?L = "L(k := remove1 B (L k))"
  have frame: "mem s' a = mem s a" if "\<not> link_word ?L a" for a
  proof -
    have "a \<noteq> PRED_PTR succ" if "succ \<noteq> 0"
      using su [OF that] k \<open>\<not> link_word ?L a\<close> by (auto simp: link_word_def)
    moreover have "a \<noteq> SUCC_PTR pred" if "pred \<noteq> 0"
      using pr [OF that] k \<open>\<not> link_word ?L a\<close> by (auto simp: link_word_def)
    ultimately show ?thesis by (auto simp: ms)
  qed
  have sub: "x \<in> set (L j)" if "x \<in> set (?L j)" for j x
    using that set_remove1_subset [of B "L k"] by (auto split: if_splits)
  have mono: "link_word L a" if "link_word ?L a" for a
    using that sub unfolding link_word_def by blast
  have hdr: "mem s' (HDRP x) = mem s (HDRP x)" if "j < LISTLIMIT" "x \<in> set (L j)" for j x
    using frame header_not_link [OF wf that] mono by blast
  have Lk: "?L k = pfx @ sfx" using sp dk by (simp add: remove1_append)
  have c: "chain s' 0 (segregated_free_lists s' j) (?L j)" if j: "j < LISTLIMIT" for j
  proof (cases "j = k")
    case True
    have "chain s' 0 (if pfx = [] then pred else segregated_free_lists s k) (pfx @ sfx)"
    proof (rule chain_remove [OF ch _ _ dk nz _ _ ms])
      show "\<forall>x\<in>set (pfx @ B # sfx). x AND 7 = 0"
        using wf_al8 [OF wf k] sp by auto
    qed (simp_all add: succ_def pred_def)
    then show ?thesis using True Lk ls su0 by simp
  next
    case False
    have "chain s' 0 (segregated_free_lists s j) (L j)"
    proof (rule chain_frame [OF wf_chain [OF wf j]], intro ballI conjI)
      fix x assume x: "x \<in> set (L j)"
      have ax: "x AND 7 = 0" using wf_al8 [OF wf j x] .
      have xs: "x \<noteq> succ" if "succ \<noteq> 0"
        using wf_class [OF wf j k x] su(1) [OF that] False by auto
      have xp: "x \<noteq> pred" if "pred \<noteq> 0"
        using wf_class [OF wf j k x] pr(1) [OF that] False by auto
      have as: "succ AND 7 = 0" using su(1) wf_al8 [OF wf k] by (cases "succ = 0") auto
      have ap: "pred AND 7 = 0" using pr(1) wf_al8 [OF wf k] by (cases "pred = 0") auto
      show "mem s' (PRED_PTR x) = mem s (PRED_PTR x)"
        using xs succ_ptr_neq [OF ap ax] by (auto simp: ms PRED_PTR_def)
      show "mem s' (SUCC_PTR x) = mem s (SUCC_PTR x)"
        using xp succ_ptr_neq [OF ax as] by (auto simp: ms PRED_PTR_def succ_ptr_inj)
    qed
    then show ?thesis using False ls by simp
  qed
  have d: "distinct (?L j)" if "j < LISTLIMIT" for j
    using wf_distinct [OF wf that] by (auto intro: distinct_remove1)
  have f: "free_block s' j x" if "j < LISTLIMIT" "x \<in> set (?L j)" for j x
    using free_block_cong(1) [OF ar hdr [OF that(1) sub [OF that(2)]]]
      wf_free [OF wf that(1) sub [OF that(2)]] by simp
  have a: "apart x (block_size s' x) y (block_size s' y)"
    if "i < LISTLIMIT" "j < LISTLIMIT" "x \<in> set (?L i)" "y \<in> set (?L j)" "x \<noteq> y"
    for i j x y
    using free_block_cong(2) [OF ar hdr [OF that(1) sub [OF that(3)]]]
      free_block_cong(2) [OF ar hdr [OF that(2) sub [OF that(4)]]]
      wf_apart [OF wf that(1,2) sub [OF that(3)] sub [OF that(4)] that(5)] by simp
  have "wf_lists s' ?L"
    by (rule wf_listsI) (fact c d f a)+
  then show ?thesis using del ar frame by blast
qed

lemma apart_sym: "apart x sx y sy \<longleftrightarrow> apart y sy x sx"
  by (auto simp: apart_def)

lemma apart_self: "16 \<le> unat sx \<Longrightarrow> \<not> apart x sx x sx"
  by (auto simp: apart_def)

lemma wf_insert:
  assumes wf: "wf_lists s L" and fb: "free_block s k B" and sz: "sz = block_size s B"
    and new: "\<And>j y. j < LISTLIMIT \<Longrightarrow> y \<in> set (L j) \<Longrightarrow>
                apart B (block_size s B) y (block_size s y)"
  shows "\<exists>s'. insert_node s B sz = Some s' \<and> wf_lists s' (L(k := B # L k)) \<and>
           same_arena s s' \<and>
           (\<forall>a. \<not> link_word L a \<and> a \<noteq> PRED_PTR B \<and> a \<noteq> SUCC_PTR B \<longrightarrow> mem s' a = mem s a)"
proof -
  have Bb: "block_in_arena s B (block_size s B)"
    and cls: "fst (select_list 0 (block_size s B)) = k"
    using fb by (simp_all add: free_block_def)
  have k: "k < LISTLIMIT"
    using select_list_bound [of 0 "block_size s B"] cls by (simp add: LISTLIMIT_def)
  note nB = block_nat [OF Bb] and vB = block_valid [OF Bb] and iB = block_in_block [OF Bb]
  have aB: "B AND 7 = 0" using Bb by (simp add: block_in_arena_def)
  have notin: "y \<noteq> B" if "j < LISTLIMIT" "y \<in> set (L j)" for j y
    using new [OF that] apart_self [OF nB(8)] by auto
  have new2: "apart y (block_size s y) B (block_size s B)"
    if "j < LISTLIMIT" "y \<in> set (L j)" for j y
    using new [OF that] by (auto simp: apart_def)
  define h where "h = segregated_free_lists s k"
  have ch: "chain s 0 h (L k)" using wf_chain [OF wf k] by (simp add: h_def)
  have hin: "h \<in> set (L k)" if "h \<noteq> 0"
    using chain_head [OF ch] that by (cases "L k") auto
  have hd: "aligned_word s (HDRP h) \<and> aligned_word s (SUCC_PTR h) \<and>
             \<not> snd (select_list 0 sz) > (mem s (HDRP h) AND NOT 7)" if "h \<noteq> 0"
  proof -
    note hb = wf_block [OF wf k hin [OF that]]
    have "fst (select_list 0 (block_size s h)) = fst (select_list 0 sz)"
      using wf_free [OF wf k hin [OF that]] cls sz by (simp add: free_block_def)
    moreover have "block_size s h \<noteq> 0" using block_nat(8) [OF hb] by auto
    ultimately have "\<not> snd (select_list 0 sz) > block_size s h"
      by (rule same_class_stops_walk)
    then show ?thesis using block_valid [OF hb] by (simp add: block_size_def)
  qed
  define s' where "s' = s\<lparr>mem := (\<lambda>a. if a = SUCC_PTR B then 0
                          else if h \<noteq> 0 \<and> a = SUCC_PTR h then B
                          else if a = PRED_PTR B then h else mem s a),
             segregated_free_lists := (segregated_free_lists s)(k := B)\<rparr>"
  have ins: "insert_node s B sz = Some s'"
    unfolding s'_def using vB(1) vB(3) cls sz h_def hd
    by (intro insert_node_result) (simp_all add: PRED_PTR_def)
  have ms: "mem s' = (\<lambda>a. if a = SUCC_PTR B then 0
                          else if h \<noteq> 0 \<and> a = SUCC_PTR h then B
                          else if a = PRED_PTR B then h else mem s a)"
    and ls: "segregated_free_lists s' = (segregated_free_lists s)(k := B)"
    and ar: "same_arena s s'"
    by (simp_all add: s'_def same_arena_def)
  have frame: "mem s' a = mem s a"
    if "\<not> link_word L a" "a \<noteq> PRED_PTR B" "a \<noteq> SUCC_PTR B" for a
  proof -
    have "a \<noteq> SUCC_PTR h" if "h \<noteq> 0"
      using hin [OF that] k \<open>\<not> link_word L a\<close> by (auto simp: link_word_def)
    then show ?thesis using that by (auto simp: ms)
  qed
  have hdr: "mem s' (HDRP x) = mem s (HDRP x)" if "j < LISTLIMIT" "x \<in> set (L j)" for j x
  proof (rule frame [OF header_not_link [OF wf that]])
    note ix = block_in_block [OF wf_block [OF wf that]]
    show "HDRP x \<noteq> PRED_PTR B" "HDRP x \<noteq> SUCC_PTR B"
      using apart_neq [OF iB(2) ix(1) new [OF that]] apart_neq [OF iB(3) ix(1) new [OF that]]
      by auto
  qed
  have hdrB: "mem s' (HDRP B) = mem s (HDRP B)"
  proof (rule frame)
    show "HDRP B \<noteq> PRED_PTR B" "HDRP B \<noteq> SUCC_PTR B"
      using block_words_neq [OF Bb] by auto
    show "\<not> link_word L (HDRP B)"
    proof
      assume "link_word L (HDRP B)"
      then obtain j y where j: "j < LISTLIMIT" "y \<in> set (L j)"
        and e: "HDRP B = PRED_PTR y \<or> HDRP B = SUCC_PTR y"
        by (auto simp: link_word_def)
      note iy = block_in_block [OF wf_block [OF wf j]]
      show False
        using e apart_neq [OF iB(1) iy(2) new [OF j]] apart_neq [OF iB(1) iy(3) new [OF j]]
        by auto
    qed
  qed
  let ?L = "L(k := B # L k)"
  have mem: "x = B \<and> j = k \<or> x \<in> set (L j)" if "x \<in> set (?L j)" for j x
    using that by (auto split: if_splits)
  have c: "chain s' 0 (segregated_free_lists s' j) (?L j)" if j: "j < LISTLIMIT" for j
  proof (cases "j = k")
    case True
    have "chain s' 0 B (B # L k)"
    proof (rule chain_cons [OF ch _ aB _ _ wf_distinct [OF wf k] ms])
      show "\<forall>x\<in>set (L k). x AND 7 = 0" using wf_al8 [OF wf k] by auto
      show "B \<notin> set (L k)" using notin [OF k] by auto
      show "B \<noteq> 0" using nB(9) .
    qed
    then show ?thesis using True ls by simp
  next
    case False
    have "chain s' 0 (segregated_free_lists s j) (L j)"
    proof (rule chain_frame [OF wf_chain [OF wf j]], intro ballI conjI)
      fix x assume x: "x \<in> set (L j)"
      have ax: "x AND 7 = 0" using wf_al8 [OF wf j x] .
      have xB: "x \<noteq> B" using notin [OF j x] .
      have xh: "x \<noteq> h" if "h \<noteq> 0"
        using wf_class [OF wf j k x] hin [OF that] False by auto
      have ah: "h AND 7 = 0" using hin wf_al8 [OF wf k] by (cases "h = 0") auto
      show "mem s' (PRED_PTR x) = mem s (PRED_PTR x)"
        using xB succ_ptr_neq [OF aB ax] succ_ptr_neq [OF ah ax] by (auto simp: ms PRED_PTR_def)
      show "mem s' (SUCC_PTR x) = mem s (SUCC_PTR x)"
        using xB xh succ_ptr_neq [OF ax aB] by (auto simp: ms PRED_PTR_def succ_ptr_inj)
    qed
    then show ?thesis using False ls by simp
  qed
  have d: "distinct (?L j)" if "j < LISTLIMIT" for j
    using wf_distinct [OF wf that] notin [OF that] by auto
  have f: "free_block s' j x" if "j < LISTLIMIT" "x \<in> set (?L j)" for j x
    using mem [OF that(2)] free_block_cong(1) [OF ar hdr [OF that(1)]]
      free_block_cong(1) [OF ar hdrB] fb wf_free [OF wf that(1)] by auto
  have bs: "block_size s' x = block_size s x" if "j < LISTLIMIT" "x \<in> set (?L j)" for j x
    using mem [OF that(2)] free_block_cong(2) [OF ar hdr [OF that(1)]]
      free_block_cong(2) [OF ar hdrB] by auto
  have a: "apart x (block_size s' x) y (block_size s' y)"
    if "i < LISTLIMIT" "j < LISTLIMIT" "x \<in> set (?L i)" "y \<in> set (?L j)" "x \<noteq> y"
    for i j x y
    using mem [OF that(3)] mem [OF that(4)] that(5) bs [OF that(1,3)] bs [OF that(2,4)]
      new [OF that(2)] new2 [OF that(1)] wf_apart [OF wf that(1,2)]
    by auto
  have "wf_lists s' ?L"
    by (rule wf_listsI) (fact c d f a)+
  then show ?thesis using ins ar frame by blast
qed

section \<open>Placement\<close>

lemma al8_keep: assumes "(c :: word32) AND 7 = 0" shows "c AND NOT 7 = c"
proof -
  have "c = c AND (7 OR NOT 7)" by simp
  also have "\<dots> = (c AND 7) OR (c AND NOT 7)" by (simp only: bit.conj_disj_distrib)
  finally show ?thesis using assms by simp
qed

lemma size_of_pack:
  assumes "(c :: word32) AND 7 = 0"
  shows "(PACK c x OR (v AND 2)) AND NOT 7 = c" and "PACK c x AND NOT 7 = c"
proof -
  have 1: "(x AND 1) AND NOT 7 = 0" "(v AND 2) AND NOT 7 = 0"
    by (simp_all add: and.assoc)
  show "(PACK c x OR (v AND 2)) AND NOT 7 = c"
    using al8_keep [OF assms] 1 by (simp add: PACK_def bit.conj_disj_distrib2)
  show "PACK c x AND NOT 7 = c"
    using al8_keep [OF assms] 1 by (simp add: PACK_def bit.conj_disj_distrib2)
qed

lemma alloc_of_pack:
  assumes "(c :: word32) AND 7 = 0"
  shows "(PACK c 0 OR (v AND 2)) AND 1 = 0" and "PACK c 0 AND 1 = 0"
proof -
  have "c AND 1 = (c AND 7) AND 1" by (simp add: and.assoc)
  then have 1: "c AND 1 = 0" using assms by simp
  have 2: "(v AND 2) AND 1 = 0" by (simp add: and.assoc)
  show "(PACK c 0 OR (v AND 2)) AND 1 = 0" "PACK c 0 AND 1 = 0"
    using 1 2 by (simp_all add: PACK_def bit.conj_disj_distrib2)
qed

lemma wf_frame:
  assumes wf: "wf_lists s L" and ar: "same_arena s s'"
    and ls: "segregated_free_lists s' = segregated_free_lists s"
    and fr: "\<And>j x. j < LISTLIMIT \<Longrightarrow> x \<in> set (L j) \<Longrightarrow>
               mem s' (HDRP x) = mem s (HDRP x) \<and> mem s' (PRED_PTR x) = mem s (PRED_PTR x) \<and>
               mem s' (SUCC_PTR x) = mem s (SUCC_PTR x)"
  shows "wf_lists s' L"
proof (rule wf_listsI)
  fix k assume k: "k < LISTLIMIT"
  show "chain s' 0 (segregated_free_lists s' k) (L k)"
    using chain_frame [OF wf_chain [OF wf k], of s'] fr [OF k] ls by simp
  show "distinct (L k)" using wf_distinct [OF wf k] .
next
  fix k x assume "k < LISTLIMIT" "x \<in> set (L k)"
  then show "free_block s' k x"
    using free_block_cong(1) [OF ar, of x k] fr wf_free [OF wf] by simp
next
  fix j k x y
  assume "j < LISTLIMIT" "k < LISTLIMIT" "x \<in> set (L j)" "y \<in> set (L k)" "x \<noteq> y"
  then show "apart x (block_size s' x) y (block_size s' y)"
    using free_block_cong(2) [OF ar, of x] free_block_cong(2) [OF ar, of y] fr
      wf_apart [OF wf, of j k x y] by simp
qed

lemma ext_not_node:
  assumes "in_block B sz w" "block_in_arena s y sy" "apart B sz y sy"
  shows "w \<noteq> HDRP y" and "w \<noteq> PRED_PTR y" and "w \<noteq> SUCC_PTR y"
  using apart_neq [OF assms(1) _ assms(3)] block_in_block [OF assms(2)] by blast+

lemma mark_tags:
  assumes blk: "block_in_arena s B sz"
  shows "\<exists>s2. PUT s (HDRP B) (PACK sz x) = Some s2 \<and> FTRP s2 B = Some (B + sz - DSIZE) \<and>
           PUT s2 (B + sz - DSIZE) (PACK sz x) =
             Some (s\<lparr>mem := (mem s)
               (HDRP B := PACK sz x OR (mem s (HDRP B) AND 2),
                B + sz - DSIZE := PACK sz x OR (mem s (B + sz - DSIZE) AND 2))\<rparr>)"
proof -
  note v = block_valid [OF blk] and n = block_words_neq [OF blk]
  have al: "sz AND 7 = 0" using blk by (simp add: block_in_arena_def)
  define s2 where "s2 = s\<lparr>mem := (mem s)(HDRP B := PACK sz x OR (mem s (HDRP B) AND 2))\<rparr>"
  have 1: "PUT s (HDRP B) (PACK sz x) = Some s2"
    using v by (simp add: PUT_def GET_TAG_def GET_aligned PUT_NOTAG_aligned s2_def)
  have 2: "FTRP s2 B = Some (B + sz - DSIZE)"
    using v size_of_pack [OF al] by (simp add: FTRP_def GET_SIZE_def GET_aligned s2_def)
  have 3: "PUT s2 (B + sz - DSIZE) (PACK sz x) =
             Some (s\<lparr>mem := (mem s)
               (HDRP B := PACK sz x OR (mem s (HDRP B) AND 2),
                B + sz - DSIZE := PACK sz x OR (mem s (B + sz - DSIZE) AND 2))\<rparr>)"
    using v n by (simp add: PUT_def GET_TAG_def GET_aligned PUT_NOTAG_aligned s2_def)
  show ?thesis using 1 2 3 by blast
qed

lemma neq_unat: "unat (a :: word32) \<noteq> unat b \<Longrightarrow> a \<noteq> b"
  by auto

lemma split_nat:
  assumes blk: "block_in_arena s B sz"
    and c: "c AND 7 = 0" "8 \<le> unat c" and u: "u AND 7 = 0" "8 \<le> unat u"
    and sum: "c + u = sz" "unat c + unat u = unat sz"
  shows "unat (B + c) = unat B + unat c"
    and "unat (B + c - DSIZE) = unat B + unat c - 8"
    and "unat (HDRP (B + c)) = unat B + unat c - 4"
    and "in_block B sz (B + c - DSIZE)" and "in_block B sz (HDRP (B + c))"
    and "(B + c) AND 7 = 0"
proof -
  have b: "unat (mem_start_brk s) + 4 \<le> unat B" "unat B + unat sz \<le> unat (mem_max_addr s)"
    "B AND 7 = 0"
    using blk by (simp_all add: block_in_arena_def)
  have le: "unat B + unat c \<le> unat (mem_max_addr s)" using b sum by simp
  show p: "unat (B + c) = unat B + unat c" using le by (rule unat_plus)
  show f: "unat (B + c - DSIZE) = unat B + unat c - 8"
    using p c unat_minus8 [of "B + c"] by (simp add: DSIZE_def)
  show h: "unat (HDRP (B + c)) = unat B + unat c - 4"
    using p c unat_minus4 [of "B + c"] by (simp add: HDRP_def WSIZE_def)
  show a8: "(B + c) AND 7 = 0" using b c by (simp add: al8_add)
  have a4: "(B + c) AND 3 = 0" "(4 :: word32) AND 3 = 0" "(8 :: word32) AND 3 = 0"
    using a8 by (simp_all add: al8_al4)
  show "in_block B sz (B + c - DSIZE)"
    using f c u sum al4_diff [OF a4(1) a4(3)] by (simp add: in_block_def DSIZE_def)
  show "in_block B sz (HDRP (B + c))"
    using h c u sum al4_diff [OF a4(1) a4(2)] by (simp add: in_block_def HDRP_def WSIZE_def)
qed

lemma split_tags:
  assumes blk: "block_in_arena s B sz"
    and c: "c AND 7 = 0" "8 \<le> unat c" and u: "u AND 7 = 0" "8 \<le> unat u"
    and sum: "c + u = sz" "unat c + unat u = unat sz"
  shows "\<exists>s2 s3 s4. PUT s (HDRP B) (PACK c x) = Some s2 \<and>
           FTRP s2 B = Some (B + c - DSIZE) \<and>
           PUT s2 (B + c - DSIZE) (PACK c x) = Some s3 \<and>
           NEXT_BLKP s3 B = Some (B + c) \<and>
           PUT_NOTAG s3 (HDRP (B + c)) (PACK u y) = Some s4 \<and>
           NEXT_BLKP s4 B = Some (B + c) \<and>
           FTRP s4 (B + c) = Some (B + sz - DSIZE) \<and>
           PUT_NOTAG s4 (B + sz - DSIZE) (PACK u y) =
             Some (s\<lparr>mem := (mem s)
               (HDRP B := PACK c x OR (mem s (HDRP B) AND 2),
                B + c - DSIZE := PACK c x OR (mem s (B + c - DSIZE) AND 2),
                HDRP (B + c) := PACK u y,
                B + sz - DSIZE := PACK u y)\<rparr>) \<and>
           NEXT_BLKP (s\<lparr>mem := (mem s)
               (HDRP B := PACK c x OR (mem s (HDRP B) AND 2),
                B + c - DSIZE := PACK c x OR (mem s (B + c - DSIZE) AND 2),
                HDRP (B + c) := PACK u y,
                B + sz - DSIZE := PACK u y)\<rparr>) B = Some (B + c)"
proof -
  note v = block_valid [OF blk] and n = block_nat [OF blk]
    and sn = split_nat [OF assms]
  have vf: "aligned_word s (B + c - DSIZE)" "aligned_word s (HDRP (B + c))"
    using in_block_valid [OF blk sn(4)] in_block_valid [OF blk sn(5)] by simp_all
  have ne: "HDRP B \<noteq> B + c - DSIZE" "HDRP B \<noteq> HDRP (B + c)"
    "B + c - DSIZE \<noteq> HDRP (B + c)" "HDRP B \<noteq> B + sz - DSIZE"
    using c u sum n(1) by (intro neq_unat; simp add: n(2,5) sn(1,2,3))+
  have hb: "B - WSIZE = HDRP B" by (simp add: HDRP_def)
  have eq: "B + c + u - DSIZE = B + sz - DSIZE" using sum by (simp add: add.assoc)
  define s2 where "s2 = s\<lparr>mem := (mem s)(HDRP B := PACK c x OR (mem s (HDRP B) AND 2))\<rparr>"
  define s3 where "s3 = s2\<lparr>mem := (mem s2)
      (B + c - DSIZE := PACK c x OR (mem s (B + c - DSIZE) AND 2))\<rparr>"
  define s4 where "s4 = s3\<lparr>mem := (mem s3)(HDRP (B + c) := PACK u y)\<rparr>"
  have 1: "PUT s (HDRP B) (PACK c x) = Some s2"
    using v by (simp add: PUT_def GET_TAG_def GET_aligned PUT_NOTAG_aligned s2_def)
  have 2: "FTRP s2 B = Some (B + c - DSIZE)"
    using v size_of_pack [OF c(1)] by (simp add: FTRP_def GET_SIZE_def GET_aligned s2_def)
  have 3: "PUT s2 (B + c - DSIZE) (PACK c x) = Some s3"
    using vf ne by (simp add: PUT_def GET_TAG_def GET_aligned PUT_NOTAG_aligned s2_def s3_def)
  have 4: "NEXT_BLKP s3 B = Some (B + c)"
    using v ne size_of_pack [OF c(1)]
    by (simp add: NEXT_BLKP_def hb GET_SIZE_def GET_aligned s2_def s3_def)
  have 5: "PUT_NOTAG s3 (HDRP (B + c)) (PACK u y) = Some s4"
    using vf by (simp add: PUT_NOTAG_aligned s2_def s3_def s4_def)
  have 6: "NEXT_BLKP s4 B = Some (B + c)"
    using v ne size_of_pack [OF c(1)]
    by (simp add: NEXT_BLKP_def hb GET_SIZE_def GET_aligned s2_def s3_def s4_def)
  have 7: "FTRP s4 (B + c) = Some (B + sz - DSIZE)"
    using vf size_of_pack [OF u(1)] eq
    by (simp add: FTRP_def GET_SIZE_def GET_aligned s2_def s3_def s4_def)
  have 8: "PUT_NOTAG s4 (B + sz - DSIZE) (PACK u y) =
             Some (s\<lparr>mem := (mem s)
               (HDRP B := PACK c x OR (mem s (HDRP B) AND 2),
                B + c - DSIZE := PACK c x OR (mem s (B + c - DSIZE) AND 2),
                HDRP (B + c) := PACK u y,
                B + sz - DSIZE := PACK u y)\<rparr>)"
    using v by (simp add: PUT_NOTAG_aligned s2_def s3_def s4_def)
  have 9: "NEXT_BLKP (s\<lparr>mem := (mem s)
               (HDRP B := PACK c x OR (mem s (HDRP B) AND 2),
                B + c - DSIZE := PACK c x OR (mem s (B + c - DSIZE) AND 2),
                HDRP (B + c) := PACK u y,
                B + sz - DSIZE := PACK u y)\<rparr>) B = Some (B + c)"
    using v ne size_of_pack [OF c(1)]
    by (simp add: NEXT_BLKP_def hb GET_SIZE_def GET_aligned)
  show ?thesis using 1 2 3 4 5 6 7 8 9 by blast
qed

lemma al8_ge8: assumes "(a :: word32) AND 7 = 0" "a \<noteq> 0" shows "8 \<le> unat a"
proof -
  have "8 dvd unat a" using assms(1) by (rule al8_unat)
  moreover have "unat a \<noteq> 0" using assms(2) by (simp add: unat_eq_0)
  ultimately show ?thesis by (auto elim: dvdE)
qed

lemma link_word_mono:
  assumes "\<And>j y. j < LISTLIMIT \<Longrightarrow> y \<in> set (L1 j) \<Longrightarrow> y \<in> set (L j)"
    and "link_word L1 w"
  shows "link_word L w"
  using assms unfolding link_word_def by blast

lemma removed_mem:
  assumes wf: "wf_lists s L" and k: "k < LISTLIMIT" and B: "B \<in> set (L k)"
    and j: "j < LISTLIMIT" and y: "y \<in> set ((L(k := remove1 B (L k))) j)"
  shows "y \<in> set (L j)" and "y \<noteq> B"
proof -
  show "y \<in> set (L j)"
    using y set_remove1_subset [of B "L k"] by (auto split: if_splits)
  show "y \<noteq> B"
  proof (cases "j = k")
    case True
    then show ?thesis using y wf_distinct [OF wf k] by simp
  next
    case False
    then show ?thesis using y wf_class [OF wf j k _ B] by auto
  qed
qed

lemma delete_keeps_block:
  assumes wf: "wf_lists s L" and k: "k < LISTLIMIT" and B: "B \<in> set (L k)"
  shows "\<exists>s1. delete_node s B = Some s1 \<and> wf_lists s1 (L(k := remove1 B (L k))) \<and>
           same_arena s s1 \<and>
           (\<forall>w. \<not> link_word (L(k := remove1 B (L k))) w \<longrightarrow> mem s1 w = mem s w) \<and>
           (\<forall>w. in_block B (block_size s B) w \<longrightarrow> \<not> link_word (L(k := remove1 B (L k))) w) \<and>
           (\<forall>j<LISTLIMIT. \<forall>y\<in>set ((L(k := remove1 B (L k))) j).
              block_size s1 y = block_size s y)"
proof -
  let ?L = "L(k := remove1 B (L k))"
  obtain s1 where d: "delete_node s B = Some s1" and wf1: "wf_lists s1 ?L"
    and ar: "same_arena s s1" and fr: "\<And>w. \<not> link_word ?L w \<Longrightarrow> mem s1 w = mem s w"
    using wf_delete [OF wf k B] by blast
  have nl: "\<not> link_word ?L w" if w: "in_block B (block_size s B) w" for w
  proof
    assume "link_word ?L w"
    then obtain j y where j: "j < LISTLIMIT" and y: "y \<in> set (?L j)"
      and e: "w = PRED_PTR y \<or> w = SUCC_PTR y"
      by (auto simp: link_word_def)
    note m = removed_mem [OF wf k B j y]
    have "apart B (block_size s B) y (block_size s y)"
      using wf_apart [OF wf k j B m(1)] m(2) by simp
    then show False
      using ext_not_node [OF w wf_block [OF wf j m(1)]] e by auto
  qed
  have bs: "block_size s1 y = block_size s y" if "j < LISTLIMIT" "y \<in> set (?L j)" for j y
    using fr [OF header_not_link [OF wf1 that]] by (simp add: block_size_def)
  show ?thesis using d wf1 ar fr nl bs by blast
qed

lemma tags_wf:
  assumes wf1: "wf_lists s1 L1"
    and ap0: "\<forall>j<LISTLIMIT. \<forall>y\<in>set (L1 j). apart B sz y (block_size s1 y)"
    and m0: "\<forall>w. \<not> in_block B sz w \<longrightarrow> m w = mem s1 w"
  shows "wf_lists (s1\<lparr>mem := m\<rparr>) L1"
    and "\<forall>j<LISTLIMIT. \<forall>y\<in>set (L1 j). block_size (s1\<lparr>mem := m\<rparr>) y = block_size s1 y"
proof -
  note ap = ap0 [rule_format] and m = m0 [rule_format]
  have fr: "m (HDRP x) = mem s1 (HDRP x) \<and> m (PRED_PTR x) = mem s1 (PRED_PTR x) \<and>
              m (SUCC_PTR x) = mem s1 (SUCC_PTR x)" if "j < LISTLIMIT" "x \<in> set (L1 j)" for j x
    using ext_not_node [OF _ wf_block [OF wf1 that] ap [OF that]] m by blast
  show "wf_lists (s1\<lparr>mem := m\<rparr>) L1"
    using fr by (intro wf_frame [OF wf1]) (simp_all add: same_arena_def)
  show "\<forall>j<LISTLIMIT. \<forall>y\<in>set (L1 j). block_size (s1\<lparr>mem := m\<rparr>) y = block_size s1 y"
    using fr by (simp add: block_size_def)
qed

lemma split_lower_free:
  assumes wf1: "wf_lists s1 L1" and blk: "block_in_arena s1 B sz"
    and nl0: "\<forall>w. in_block B sz w \<longrightarrow> \<not> link_word L1 w"
    and ap0: "\<forall>j<LISTLIMIT. \<forall>y\<in>set (L1 j). apart B sz y (block_size s1 y)"
    and c: "c AND 7 = 0" "16 \<le> unat c" and u: "u AND 7 = 0" "8 \<le> unat u"
    and sum: "c + u = sz" "unat c + unat u = unat sz"
    and s5: "s5 = s1\<lparr>mem := (mem s1)
               (HDRP B := PACK c 0 OR (mem s1 (HDRP B) AND 2),
                B + c - DSIZE := PACK c 0 OR (mem s1 (B + c - DSIZE) AND 2),
                HDRP (B + c) := PACK u y,
                B + sz - DSIZE := PACK u y)\<rparr>"
  shows "\<exists>s6. insert_node s5 B c = Some s6 \<and> NEXT_BLKP s6 B = Some (B + c) \<and>
           wf_lists s6 (L1(fst (select_list 0 c) := B # L1 (fst (select_list 0 c)))) \<and>
           same_arena s1 s6 \<and>
           (\<forall>w. \<not> link_word L1 w \<and> \<not> in_block B sz w \<longrightarrow> mem s6 w = mem s1 w) \<and>
           mem s6 (HDRP B) = PACK c 0 OR (mem s1 (HDRP B) AND 2) \<and>
           mem s6 (B + c - DSIZE) = PACK c 0 OR (mem s1 (B + c - DSIZE) AND 2) \<and>
           mem s6 (HDRP (B + c)) = PACK u y \<and>
           mem s6 (B + sz - DSIZE) = PACK u y"
proof -
  note nl = nl0 [rule_format] and ap = ap0 [rule_format]
  have c8: "8 \<le> unat c" using c by simp
  note n = block_nat [OF blk] and ib = block_in_block [OF blk]
    and sn = split_nat [OF blk c(1) c8 u sum]
  have ne: "HDRP B \<noteq> B + c - DSIZE" "HDRP B \<noteq> HDRP (B + c)" "HDRP B \<noteq> B + sz - DSIZE"
    "B + c - DSIZE \<noteq> HDRP (B + c)" "B + c - DSIZE \<noteq> B + sz - DSIZE"
    "HDRP (B + c) \<noteq> B + sz - DSIZE"
    using c u sum n(1) by (intro neq_unat; simp add: n(2,5) sn(1,2,3))+
  have nF: "HDRP B \<noteq> PRED_PTR B" "HDRP B \<noteq> SUCC_PTR B"
    "B + c - DSIZE \<noteq> PRED_PTR B" "B + c - DSIZE \<noteq> SUCC_PTR B"
    "HDRP (B + c) \<noteq> PRED_PTR B" "HDRP (B + c) \<noteq> SUCC_PTR B"
    "B + sz - DSIZE \<noteq> PRED_PTR B" "B + sz - DSIZE \<noteq> SUCC_PTR B"
    using c u sum n(1) by (intro neq_unat; simp add: n(2,3,5) sn(1,2,3) PRED_PTR_def)+
  have m5: "mem s5 w = mem s1 w" if "\<not> in_block B sz w" for w
    using that ib sn by (auto simp: s5)
  have ar5: "same_arena s1 s5" by (simp add: s5 same_arena_def)
  have wf5: "wf_lists s5 L1"
    and bs5: "\<And>j y. j < LISTLIMIT \<Longrightarrow> y \<in> set (L1 j) \<Longrightarrow> block_size s5 y = block_size s1 y"
    using tags_wf [where m = "mem s5", OF wf1 ap0] m5 by (simp_all add: s5)
  have h5: "mem s5 (HDRP B) = PACK c 0 OR (mem s1 (HDRP B) AND 2)"
    using ne by (simp add: s5)
  have sz5: "block_size s5 B = c"
    using h5 size_of_pack [OF c(1)] by (simp add: block_size_def)
  have bc: "block_in_arena s5 B c"
    using blk c sum ar5 by (simp add: block_in_arena_def same_arena_def)
  have fb: "free_block s5 (fst (select_list 0 c)) B"
    using bc sz5 h5 alloc_of_pack [OF c(1)] by (simp add: free_block_def)
  have new: "apart B (block_size s5 B) y (block_size s5 y)"
    if "j < LISTLIMIT" "y \<in> set (L1 j)" for j y
    using ap [OF that] bs5 [OF that] sz5 sum by (auto simp: apart_def)
  have "\<exists>s6. insert_node s5 B c = Some s6 \<and>
          wf_lists s6 (L1(fst (select_list 0 c) := B # L1 (fst (select_list 0 c)))) \<and>
          same_arena s5 s6 \<and>
          (\<forall>w. \<not> link_word L1 w \<and> w \<noteq> PRED_PTR B \<and> w \<noteq> SUCC_PTR B \<longrightarrow> mem s6 w = mem s5 w)"
    by (rule wf_insert [OF wf5 fb sz5 [symmetric]]) (rule new)
  then obtain s6 where ins: "insert_node s5 B c = Some s6"
    and wf6: "wf_lists s6 (L1(fst (select_list 0 c) := B # L1 (fst (select_list 0 c))))"
    and ar6: "same_arena s5 s6"
    and fr6: "\<And>w. \<not> link_word L1 w \<Longrightarrow> w \<noteq> PRED_PTR B \<Longrightarrow> w \<noteq> SUCC_PTR B \<Longrightarrow>
                mem s6 w = mem s5 w"
    by blast
  have k6: "mem s6 w = mem s5 w" if "in_block B sz w" "w \<noteq> PRED_PTR B" "w \<noteq> SUCC_PTR B" for w
    using fr6 [OF nl [OF that(1)] that(2,3)] .
  have i4: "in_block B sz (HDRP B)" "in_block B sz (B + c - DSIZE)"
    "in_block B sz (HDRP (B + c))" "in_block B sz (B + sz - DSIZE)"
    using ib sn by simp_all
  have t1: "mem s6 (HDRP B) = PACK c 0 OR (mem s1 (HDRP B) AND 2)"
    using k6 [OF i4(1) nF(1,2)] h5 by simp
  have t2: "mem s6 (B + c - DSIZE) = PACK c 0 OR (mem s1 (B + c - DSIZE) AND 2)"
    using k6 [OF i4(2) nF(3,4)] ne by (simp add: s5)
  have t3: "mem s6 (HDRP (B + c)) = PACK u y"
    using k6 [OF i4(3) nF(5,6)] ne by (simp add: s5)
  have t4: "mem s6 (B + sz - DSIZE) = PACK u y"
    using k6 [OF i4(4) nF(7,8)] by (simp add: s5)
  have hb: "B - WSIZE = HDRP B" by (simp add: HDRP_def)
  have v6: "aligned_word s6 (HDRP B)"
    using block_valid(2) [OF blk] ar5 ar6 by (simp add: aligned_word_def valid_word_def same_arena_def)
  have nx: "NEXT_BLKP s6 B = Some (B + c)"
    using v6 t1 size_of_pack [OF c(1)] by (simp add: NEXT_BLKP_def hb GET_SIZE_def GET_aligned)
  have fr: "mem s6 w = mem s1 w" if "\<not> link_word L1 w" "\<not> in_block B sz w" for w
  proof -
    have "w \<noteq> PRED_PTR B" "w \<noteq> SUCC_PTR B" using that(2) ib by auto
    then show ?thesis using fr6 [OF that(1)] m5 [OF that(2)] by simp
  qed
  have ar: "same_arena s1 s6" using ar5 ar6 by (simp add: same_arena_def)
  show ?thesis using ins nx wf6 ar fr t1 t2 t3 t4 by blast
qed

lemma split_upper_free:
  assumes wf1: "wf_lists s1 L1" and blk: "block_in_arena s1 B sz"
    and nl0: "\<forall>w. in_block B sz w \<longrightarrow> \<not> link_word L1 w"
    and ap0: "\<forall>j<LISTLIMIT. \<forall>y\<in>set (L1 j). apart B sz y (block_size s1 y)"
    and c: "c AND 7 = 0" "8 \<le> unat c" and u: "u AND 7 = 0" "16 \<le> unat u"
    and sum: "c + u = sz" "unat c + unat u = unat sz"
    and s5: "s5 = s1\<lparr>mem := (mem s1)
               (HDRP B := PACK c x OR (mem s1 (HDRP B) AND 2),
                B + c - DSIZE := PACK c x OR (mem s1 (B + c - DSIZE) AND 2),
                HDRP (B + c) := PACK u 0,
                B + sz - DSIZE := PACK u 0)\<rparr>"
  shows "\<exists>s6. insert_node s5 (B + c) u = Some s6 \<and>
           wf_lists s6 (L1(fst (select_list 0 u) := (B + c) # L1 (fst (select_list 0 u)))) \<and>
           same_arena s1 s6 \<and>
           (\<forall>w. \<not> link_word L1 w \<and> \<not> in_block B sz w \<longrightarrow> mem s6 w = mem s1 w) \<and>
           mem s6 (HDRP B) = PACK c x OR (mem s1 (HDRP B) AND 2) \<and>
           mem s6 (B + c - DSIZE) = PACK c x OR (mem s1 (B + c - DSIZE) AND 2) \<and>
           mem s6 (HDRP (B + c)) = PACK u 0 \<and>
           mem s6 (B + sz - DSIZE) = PACK u 0"
proof -
  note nl = nl0 [rule_format] and ap = ap0 [rule_format]
  have u8: "8 \<le> unat u" using u by simp
  note n = block_nat [OF blk] and ib = block_in_block [OF blk]
    and sn = split_nat [OF blk c u(1) u8 sum]
  have ar5: "same_arena s1 s5" by (simp add: s5 same_arena_def)
  have bF: "block_in_arena s5 (B + c) u"
    using blk sn u sum ar5 by (simp add: block_in_arena_def same_arena_def)
  note nF = block_nat [OF bF] and iF = block_in_block [OF bF]
  have ne: "HDRP B \<noteq> B + c - DSIZE" "HDRP B \<noteq> HDRP (B + c)" "HDRP B \<noteq> B + sz - DSIZE"
    "B + c - DSIZE \<noteq> HDRP (B + c)" "B + c - DSIZE \<noteq> B + sz - DSIZE"
    "HDRP (B + c) \<noteq> B + sz - DSIZE"
    using c u sum n(1) by (intro neq_unat; simp add: n(2,5) sn(1,2,3))+
  have neF: "HDRP B \<noteq> PRED_PTR (B + c)" "HDRP B \<noteq> SUCC_PTR (B + c)"
    "B + c - DSIZE \<noteq> PRED_PTR (B + c)" "B + c - DSIZE \<noteq> SUCC_PTR (B + c)"
    "HDRP (B + c) \<noteq> PRED_PTR (B + c)" "HDRP (B + c) \<noteq> SUCC_PTR (B + c)"
    "B + sz - DSIZE \<noteq> PRED_PTR (B + c)" "B + sz - DSIZE \<noteq> SUCC_PTR (B + c)"
    using c u sum n(1) by (intro neq_unat; simp add: n(2,5) sn(1,2,3) nF(3) PRED_PTR_def)+
  have iBF: "in_block B sz (PRED_PTR (B + c))" "in_block B sz (SUCC_PTR (B + c))"
    using iF(2,3) sn(1) u sum by (simp_all add: in_block_def)
  have m5: "mem s5 w = mem s1 w" if "\<not> in_block B sz w" for w
    using that ib sn by (auto simp: s5)
  have wf5: "wf_lists s5 L1"
    and bs5: "\<And>j y. j < LISTLIMIT \<Longrightarrow> y \<in> set (L1 j) \<Longrightarrow> block_size s5 y = block_size s1 y"
    using tags_wf [where m = "mem s5", OF wf1 ap0] m5 by (simp_all add: s5)
  have h5: "mem s5 (HDRP (B + c)) = PACK u 0"
    using ne by (simp add: s5)
  have sz5: "block_size s5 (B + c) = u"
    using h5 size_of_pack [OF u(1)] by (simp add: block_size_def)
  have fb: "free_block s5 (fst (select_list 0 u)) (B + c)"
    using bF sz5 h5 alloc_of_pack [OF u(1)] by (simp add: free_block_def)
  have new: "apart (B + c) (block_size s5 (B + c)) y (block_size s5 y)"
    if "j < LISTLIMIT" "y \<in> set (L1 j)" for j y
    using ap [OF that] bs5 [OF that] sz5 sn(1) sum by (auto simp: apart_def)
  have "\<exists>s6. insert_node s5 (B + c) u = Some s6 \<and>
          wf_lists s6 (L1(fst (select_list 0 u) := (B + c) # L1 (fst (select_list 0 u)))) \<and>
          same_arena s5 s6 \<and>
          (\<forall>w. \<not> link_word L1 w \<and> w \<noteq> PRED_PTR (B + c) \<and> w \<noteq> SUCC_PTR (B + c) \<longrightarrow>
             mem s6 w = mem s5 w)"
    by (rule wf_insert [OF wf5 fb sz5 [symmetric]]) (rule new)
  then obtain s6 where ins: "insert_node s5 (B + c) u = Some s6"
    and wf6: "wf_lists s6 (L1(fst (select_list 0 u) := (B + c) # L1 (fst (select_list 0 u))))"
    and ar6: "same_arena s5 s6"
    and fr6: "\<And>w. \<not> link_word L1 w \<Longrightarrow> w \<noteq> PRED_PTR (B + c) \<Longrightarrow>
                w \<noteq> SUCC_PTR (B + c) \<Longrightarrow> mem s6 w = mem s5 w"
    by blast
  have k6: "mem s6 w = mem s5 w"
    if "in_block B sz w" "w \<noteq> PRED_PTR (B + c)" "w \<noteq> SUCC_PTR (B + c)" for w
    using fr6 [OF nl [OF that(1)] that(2,3)] .
  have i4: "in_block B sz (HDRP B)" "in_block B sz (B + c - DSIZE)"
    "in_block B sz (HDRP (B + c))" "in_block B sz (B + sz - DSIZE)"
    using ib sn by simp_all
  have t1: "mem s6 (HDRP B) = PACK c x OR (mem s1 (HDRP B) AND 2)"
    using k6 [OF i4(1) neF(1,2)] ne by (simp add: s5)
  have t2: "mem s6 (B + c - DSIZE) = PACK c x OR (mem s1 (B + c - DSIZE) AND 2)"
    using k6 [OF i4(2) neF(3,4)] ne by (simp add: s5)
  have t3: "mem s6 (HDRP (B + c)) = PACK u 0"
    using k6 [OF i4(3) neF(5,6)] ne by (simp add: s5)
  have t4: "mem s6 (B + sz - DSIZE) = PACK u 0"
    using k6 [OF i4(4) neF(7,8)] by (simp add: s5)
  have fr: "mem s6 w = mem s1 w" if "\<not> link_word L1 w" "\<not> in_block B sz w" for w
  proof -
    have "w \<noteq> PRED_PTR (B + c)" "w \<noteq> SUCC_PTR (B + c)" using that(2) iBF by auto
    then show ?thesis using fr6 [OF that(1)] m5 [OF that(2)] by simp
  qed
  have ar: "same_arena s1 s6" using ar5 ar6 by (simp add: same_arena_def)
  show ?thesis using ins wf6 ar fr t1 t2 t3 t4 by blast
qed

text \<open>
  C5.  Let the directory be well formed and \<open>B\<close> a block of one of its lists, of size
  \<open>sz\<close>, and let \<open>a\<close> be an adjusted request size, a nonzero multiple of 8, with
  \<open>a \<le> sz\<close>; \<open>r = sz - a\<close> is the remainder.  Then \<^verbatim>\<open>place(B, a)\<close> returns, and \<open>B\<close>
  has left its list.  If \<open>r \<le> 16\<close> the whole block is marked allocated (header and
  footer hold size \<open>sz\<close> and the allocation bit, the reallocation bit being the one the
  word had) and \<open>B\<close> is returned.  Otherwise, if \<open>a \<ge> 100\<close>, the lower fragment of size
  \<open>r\<close> is a free block again, at the head of the list that \<open>r\<close> selects, the upper
  fragment of size \<open>a\<close> carries exactly \<open>PACK a 1\<close> in header and footer (reallocation
  bit clear), and the pointer \<open>B + r\<close> to it is returned.  Otherwise the lower fragment
  of size \<open>a\<close> is allocated, the upper fragment of size \<open>r\<close> carries exactly
  \<open>PACK r 0\<close> in header and footer and is at the head of the list that \<open>r\<close> selects,
  and \<open>B\<close> is returned.  In every case the directory is well formed for the new lists,
  the provider's variables are unchanged, and no word outside the extent of \<open>B\<close> and
  the link fields of listed blocks has changed.
\<close>

theorem place_three_cases:
  fixes s :: heap and L :: "nat \<Rightarrow> word32 list" and B a :: word32
  defines "sz \<equiv> block_size s B"
  defines "r \<equiv> block_size s B - a"
  defines "L1 \<equiv> L(fst (select_list 0 (block_size s B)) := remove1 B (L (fst (select_list 0 (block_size s B)))))"
  defines "kr \<equiv> fst (select_list 0 (block_size s B - a))"
  assumes wf: "wf_lists s L" and k: "k < LISTLIMIT" and B: "B \<in> set (L k)"
    and a: "a AND 7 = 0" "a \<noteq> 0" "a \<le> block_size s B"
  shows "\<exists>q s'. place s B a = Some (q, s') \<and> same_arena s s' \<and>
           (\<forall>w. \<not> link_word L w \<and> \<not> in_block B sz w \<longrightarrow> mem s' w = mem s w) \<and>
           (if r \<le> 16 then
              q = B \<and> wf_lists s' L1 \<and>
              mem s' (HDRP B) = PACK sz 1 OR (mem s (HDRP B) AND 2) \<and>
              mem s' (B + sz - DSIZE) = PACK sz 1 OR (mem s (B + sz - DSIZE) AND 2)
            else if 100 \<le> a then
              q = B + r \<and> wf_lists s' (L1(kr := B # L1 kr)) \<and>
              mem s' (HDRP B) = PACK r 0 OR (mem s (HDRP B) AND 2) \<and>
              mem s' (B + r - DSIZE) = PACK r 0 OR (mem s (B + r - DSIZE) AND 2) \<and>
              mem s' (HDRP (B + r)) = PACK a 1 \<and>
              mem s' (B + sz - DSIZE) = PACK a 1
            else
              q = B \<and> wf_lists s' (L1(kr := (B + a) # L1 kr)) \<and>
              mem s' (HDRP B) = PACK a 1 OR (mem s (HDRP B) AND 2) \<and>
              mem s' (B + a - DSIZE) = PACK a 1 OR (mem s (B + a - DSIZE) AND 2) \<and>
              mem s' (HDRP (B + a)) = PACK r 0 \<and>
              mem s' (B + sz - DSIZE) = PACK r 0)"
proof -
  have cls: "fst (select_list 0 (block_size s B)) = k"
    using wf_free [OF wf k B] by (simp add: free_block_def)
  have L1: "L1 = L(k := remove1 B (L k))" by (simp add: L1_def cls)
  have Bb: "block_in_arena s B sz" using wf_block [OF wf k B] by (simp add: sz_def)
  obtain s1 where d: "delete_node s B = Some s1" and wf1: "wf_lists s1 L1"
    and ar1: "same_arena s s1"
    and fr1: "\<And>w. \<not> link_word L1 w \<Longrightarrow> mem s1 w = mem s w"
    and nl: "\<And>w. in_block B sz w \<Longrightarrow> \<not> link_word L1 w"
    and bs1: "\<And>j y. j < LISTLIMIT \<Longrightarrow> y \<in> set (L1 j) \<Longrightarrow> block_size s1 y = block_size s y"
    using delete_keeps_block [OF wf k B] unfolding L1 sz_def by blast
  have blk1: "block_in_arena s1 B sz"
    using Bb ar1 by (simp add: block_in_arena_def same_arena_def)
  have ap1: "apart B sz y (block_size s1 y)" if "j < LISTLIMIT" "y \<in> set (L1 j)" for j y
    using removed_mem [OF wf k B that(1) that(2) [unfolded L1]]
      wf_apart [OF wf k that(1) B, of y] bs1 [OF that] by (simp add: sz_def)
  have nl0: "\<forall>w. in_block B sz w \<longrightarrow> \<not> link_word L1 w"
    and ap0: "\<forall>j<LISTLIMIT. \<forall>y\<in>set (L1 j). apart B sz y (block_size s1 y)"
    using nl ap1 by blast+
  have mono: "link_word L w" if "link_word L1 w" for w
    using that removed_mem(1) [OF wf k B] unfolding L1 link_word_def by blast
  have m1: "mem s1 w = mem s w" if "in_block B sz w" for w
    using fr1 [OF nl [OF that]] .
  have gs: "GET_SIZE s (HDRP B) = Some sz"
    using block_valid(2) [OF Bb] by (simp add: GET_SIZE_def GET_aligned sz_def block_size_def)
  have al: "sz AND 7 = 0" "r AND 7 = 0"
    using Bb a(1) by (simp_all add: block_in_arena_def r_def sz_def [symmetric] al8_diff)
  have a8: "8 \<le> unat a" using al8_ge8 [OF a(1,2)] .
  have le: "unat a \<le> unat sz" using a(3) by (simp add: word_le_nat_alt sz_def)
  have ur: "unat r = unat sz - unat a"
    using le unat_minus [of a sz] by (simp add: r_def sz_def)
  have sum: "r + a = sz" "unat r + unat a = unat sz" "a + r = sz" "unat a + unat r = unat sz"
    using ur le by (simp_all add: r_def sz_def)
  note ib = block_in_block [OF Bb]
  have frame: "mem s' w = mem s w"
    if "\<And>w. \<not> link_word L1 w \<and> \<not> in_block B sz w \<longrightarrow> mem s' w = mem s1 w"
      "\<not> link_word L w" "\<not> in_block B sz w" for s' w
    using that mono fr1 by metis
  show ?thesis
  proof (cases "r \<le> 16")
    case True
    define s3 where "s3 = s1\<lparr>mem := (mem s1)
               (HDRP B := PACK sz 1 OR (mem s1 (HDRP B) AND 2),
                B + sz - DSIZE := PACK sz 1 OR (mem s1 (B + sz - DSIZE) AND 2))\<rparr>"
    obtain s2 where e: "PUT s1 (HDRP B) (PACK sz 1) = Some s2"
      "FTRP s2 B = Some (B + sz - DSIZE)" "PUT s2 (B + sz - DSIZE) (PACK sz 1) = Some s3"
      using mark_tags [OF blk1, of 1] unfolding s3_def by blast
    have pl: "place s B a = Some (B, s3)"
      using gs d True e by (simp add: place_def r_def sz_def DSIZE_def)
    have m3: "mem s3 w = mem s1 w" if "\<not> in_block B sz w" for w
      using that ib by (auto simp: s3_def)
    have wf3: "wf_lists s3 L1"
      using tags_wf(1) [where m = "mem s3", OF wf1 ap0] m3 by (simp add: s3_def)
    have ar3: "same_arena s s3" using ar1 by (simp add: s3_def same_arena_def)
    have t: "mem s3 (HDRP B) = PACK sz 1 OR (mem s (HDRP B) AND 2)"
      "mem s3 (B + sz - DSIZE) = PACK sz 1 OR (mem s (B + sz - DSIZE) AND 2)"
      using block_words_neq(4) [OF Bb] m1 [OF ib(1)] m1 [OF ib(4)] by (simp_all add: s3_def)
    have fr: "mem s3 w = mem s w" if "\<not> link_word L w" "\<not> in_block B sz w" for w
      using frame [of s3 w] m3 that by blast
    show ?thesis using pl ar3 fr wf3 t True by auto
  next
    case False
    then have r16: "16 \<le> unat r" "8 \<le> unat r" by (simp_all add: word_le_nat_alt)
    show ?thesis
    proof (cases "100 \<le> a")
      case True
      define s5 where "s5 = s1\<lparr>mem := (mem s1)
               (HDRP B := PACK r 0 OR (mem s1 (HDRP B) AND 2),
                B + r - DSIZE := PACK r 0 OR (mem s1 (B + r - DSIZE) AND 2),
                HDRP (B + r) := PACK a 1,
                B + sz - DSIZE := PACK a 1)\<rparr>"
      obtain s2 s3 s4 where e: "PUT s1 (HDRP B) (PACK r 0) = Some s2"
        "FTRP s2 B = Some (B + r - DSIZE)" "PUT s2 (B + r - DSIZE) (PACK r 0) = Some s3"
        "NEXT_BLKP s3 B = Some (B + r)" "PUT_NOTAG s3 (HDRP (B + r)) (PACK a 1) = Some s4"
        "NEXT_BLKP s4 B = Some (B + r)" "FTRP s4 (B + r) = Some (B + sz - DSIZE)"
        "PUT_NOTAG s4 (B + sz - DSIZE) (PACK a 1) = Some s5"
        using split_tags [OF blk1 al(2) r16(2) a(1) a8 sum(1,2), of 0 1] unfolding s5_def by blast
      obtain s6 where i: "insert_node s5 B r = Some s6" "NEXT_BLKP s6 B = Some (B + r)"
        and wf6: "wf_lists s6 (L1(kr := B # L1 kr))" and ar6: "same_arena s1 s6"
        and fr6: "\<And>w. \<not> link_word L1 w \<and> \<not> in_block B sz w \<longrightarrow> mem s6 w = mem s1 w"
        and t: "mem s6 (HDRP B) = PACK r 0 OR (mem s1 (HDRP B) AND 2)"
          "mem s6 (B + r - DSIZE) = PACK r 0 OR (mem s1 (B + r - DSIZE) AND 2)"
          "mem s6 (HDRP (B + r)) = PACK a 1" "mem s6 (B + sz - DSIZE) = PACK a 1"
        using split_lower_free [OF wf1 blk1 nl0 ap0 al(2) r16(1) a(1) a8 sum(1,2) s5_def]
        unfolding kr_def r_def by blast
      have pl: "place s B a = Some (B + r, s6)"
        using gs d False True e i by (simp add: place_def r_def sz_def DSIZE_def)
      note sn = split_nat [OF blk1 al(2) r16(2) a(1) a8 sum(1,2)]
      have t': "mem s6 (HDRP B) = PACK r 0 OR (mem s (HDRP B) AND 2)"
        "mem s6 (B + r - DSIZE) = PACK r 0 OR (mem s (B + r - DSIZE) AND 2)"
        using t m1 [OF ib(1)] m1 [OF sn(4)] by simp_all
      have ar: "same_arena s s6" using ar1 ar6 by (simp add: same_arena_def)
      have fr: "mem s6 w = mem s w" if "\<not> link_word L w" "\<not> in_block B sz w" for w
        using frame [of s6 w] fr6 that by blast
      show ?thesis using pl ar fr wf6 t' t(3,4) False True by auto
    next
      case F2: False
      define s5 where "s5 = s1\<lparr>mem := (mem s1)
               (HDRP B := PACK a 1 OR (mem s1 (HDRP B) AND 2),
                B + a - DSIZE := PACK a 1 OR (mem s1 (B + a - DSIZE) AND 2),
                HDRP (B + a) := PACK r 0,
                B + sz - DSIZE := PACK r 0)\<rparr>"
      obtain s2 s3 s4 where e: "PUT s1 (HDRP B) (PACK a 1) = Some s2"
        "FTRP s2 B = Some (B + a - DSIZE)" "PUT s2 (B + a - DSIZE) (PACK a 1) = Some s3"
        "NEXT_BLKP s3 B = Some (B + a)" "PUT_NOTAG s3 (HDRP (B + a)) (PACK r 0) = Some s4"
        "NEXT_BLKP s4 B = Some (B + a)" "FTRP s4 (B + a) = Some (B + sz - DSIZE)"
        "PUT_NOTAG s4 (B + sz - DSIZE) (PACK r 0) = Some s5"
        and nx: "NEXT_BLKP s5 B = Some (B + a)"
        using split_tags [OF blk1 a(1) a8 al(2) r16(2) sum(3,4), of 1 0] unfolding s5_def by blast
      obtain s6 where i: "insert_node s5 (B + a) r = Some s6"
        and wf6: "wf_lists s6 (L1(kr := (B + a) # L1 kr))" and ar6: "same_arena s1 s6"
        and fr6: "\<And>w. \<not> link_word L1 w \<and> \<not> in_block B sz w \<longrightarrow> mem s6 w = mem s1 w"
        and t: "mem s6 (HDRP B) = PACK a 1 OR (mem s1 (HDRP B) AND 2)"
          "mem s6 (B + a - DSIZE) = PACK a 1 OR (mem s1 (B + a - DSIZE) AND 2)"
          "mem s6 (HDRP (B + a)) = PACK r 0" "mem s6 (B + sz - DSIZE) = PACK r 0"
        using split_upper_free [OF wf1 blk1 nl0 ap0 a(1) a8 al(2) r16(1) sum(3,4) s5_def]
        unfolding kr_def r_def by blast
      have pl: "place s B a = Some (B, s6)"
        using gs d False F2 e nx i by (simp add: place_def r_def sz_def DSIZE_def)
      note sn = split_nat [OF blk1 a(1) a8 al(2) r16(2) sum(3,4)]
      have t': "mem s6 (HDRP B) = PACK a 1 OR (mem s (HDRP B) AND 2)"
        "mem s6 (B + a - DSIZE) = PACK a 1 OR (mem s (B + a - DSIZE) AND 2)"
        using t m1 [OF ib(1)] m1 [OF sn(4)] by simp_all
      have ar: "same_arena s s6" using ar1 ar6 by (simp add: same_arena_def)
      have fr: "mem s6 w = mem s w" if "\<not> link_word L w" "\<not> in_block B sz w" for w
        using frame [of s6 w] fr6 that by blast
      show ?thesis using pl ar fr wf6 t' t(3,4) False F2 by auto
    qed
  qed
qed

text \<open>The theorem at work: a request of 24 bytes placed in the free block of 64 bytes that \<^verbatim>\<open>mm_init\<close> leaves.\<close>

theorem place_three_cases_witness:
  "\<exists>s'. place heap_init 0x1010 24 = Some (0x1010, s') \<and> same_arena heap_init s' \<and>
     wf_lists s' ((\<lambda>_. [])(6 := [], 5 := [0x1028])) \<and>
     mem s' (HDRP 0x1010) = 25 \<and> mem s' (0x1010 + 24 - DSIZE) = 25 \<and>
     mem s' (HDRP 0x1028) = 40 \<and> mem s' (0x1010 + 64 - DSIZE) = 40"
proof -
  let ?L = "(\<lambda>_. [])(6 := [0x1010 :: word32])"
  have sl: "select_list 0 64 = (6, 1)" "select_list 0 40 = (5, 1)"
    by (simp_all add: select_list.simps LISTLIMIT_def)
  have hm: "mem heap_init (HDRP 0x1010) = 64" "mem_start_brk heap_init = 0x1000"
    "mem_max_addr heap_init = 0x101000"
    "segregated_free_lists heap_init = (\<lambda>_. 0)(6 := 0x1010)"
    "mem heap_init (SUCC_PTR 0x1010) = 0" "mem heap_init (PRED_PTR 0x1010) = 0"
    "mem heap_init (0x1028 - DSIZE) = 0"
    by (simp_all add: heap_init_def HDRP_def WSIZE_def DSIZE_def SUCC_PTR_def PRED_PTR_def)
  have bs: "block_size heap_init 0x1010 = 64"
    by (simp add: block_size_def hm)
  have fb: "free_block heap_init 6 0x1010"
    by (simp add: free_block_def block_in_arena_def bs sl hm)
  have wf: "wf_lists heap_init ?L"
    by (simp add: wf_lists_def fb hm)
  have k: "6 < LISTLIMIT" by (simp add: LISTLIMIT_def)
  have B: "0x1010 \<in> set (?L 6)" by simp
  have a: "(24 :: word32) AND 7 = 0" "(24 :: word32) \<noteq> 0" "24 \<le> block_size heap_init 0x1010"
    by (simp_all add: bs)
  show ?thesis
    using place_three_cases [OF wf k B a]
    by (auto simp: bs sl hm PACK_def)
qed

section \<open>Coalescing\<close>

lemma wf_lists_cong:
  assumes "\<And>j. j < LISTLIMIT \<Longrightarrow> L' j = L j" and "wf_lists s L"
  shows "wf_lists s L'"
  using assms unfolding wf_lists_def by simp

lemma PUT_aligned:
  "aligned_word s p \<Longrightarrow> PUT s p v = Some (s\<lparr>mem := (mem s)(p := v OR (mem s p AND 2))\<rparr>)"
  by (simp add: PUT_def GET_TAG_def GET_aligned PUT_NOTAG_aligned)

lemma aligned_word_arena: "same_arena s s' \<Longrightarrow> aligned_word s' p = aligned_word s p"
  by (simp add: aligned_word_def valid_word_def same_arena_def)

lemma block_in_arena_arena:
  "same_arena s s' \<Longrightarrow> block_in_arena s' x sx = block_in_arena s x sx"
  by (simp add: block_in_arena_def same_arena_def)

lemma wf_unlink:
  assumes wf: "wf_lists s L" and X: "in_lists L X"
  shows "\<exists>s'. delete_node s X = Some s' \<and> wf_lists s' (unlink L X) \<and> same_arena s s' \<and>
           (\<forall>w. \<not> link_word L w \<longrightarrow> mem s' w = mem s w)"
proof -
  obtain k where k: "k < LISTLIMIT" "X \<in> set (L k)"
    using X by (auto simp: in_lists_def)
  let ?L = "L(k := remove1 X (L k))"
  obtain s' where d: "delete_node s X = Some s'" and wf1: "wf_lists s' ?L"
    and ar: "same_arena s s'" and fr: "\<And>w. \<not> link_word ?L w \<Longrightarrow> mem s' w = mem s w"
    using wf_delete [OF wf k] by blast
  have eq: "unlink L X j = ?L j" if "j < LISTLIMIT" for j
  proof (cases "j = k")
    case True
    then show ?thesis by (simp add: unlink_def)
  next
    case False
    then have "X \<notin> set (L j)" using wf_class [OF wf that k(1) _ k(2)] by auto
    then show ?thesis using False by (simp add: unlink_def remove1_idem)
  qed
  have wfu: "wf_lists s' (unlink L X)"
    by (rule wf_lists_cong [OF eq wf1])
  have mono: "link_word L w" if "link_word ?L w" for w
    using that removed_mem(1) [OF wf k] unfolding link_word_def by blast
  show ?thesis using d wfu ar fr mono by blast
qed

lemma unlink_set:
  "wf_lists s L \<Longrightarrow> j < LISTLIMIT \<Longrightarrow> set (unlink L X j) = set (L j) - {X}"
  by (simp add: unlink_def wf_distinct)

lemma delete_stage:
  assumes wfi: "wf_lists si Li" and ari: "same_arena s si"
    and fri: "\<forall>w. \<not> link_word L w \<longrightarrow> mem si w = mem s w"
    and seti: "\<forall>j<LISTLIMIT. set (Li j) = set (L j) - D"
    and X: "in_lists L X" "X \<notin> D"
  shows "\<exists>s'. delete_node si X = Some s' \<and> wf_lists s' (unlink Li X) \<and> same_arena s s' \<and>
           (\<forall>w. \<not> link_word L w \<longrightarrow> mem s' w = mem s w) \<and>
           (\<forall>j<LISTLIMIT. set (unlink Li X j) = set (L j) - insert X D)"
proof -
  have Xi: "in_lists Li X" using X seti by (auto simp: in_lists_def)
  obtain s' where d: "delete_node si X = Some s'" and wf1: "wf_lists s' (unlink Li X)"
    and ar: "same_arena si s'" and fr: "\<And>w. \<not> link_word Li w \<Longrightarrow> mem s' w = mem si w"
    using wf_unlink [OF wfi Xi] by blast
  have mono: "link_word L w" if "link_word Li w" for w
    using that seti unfolding link_word_def by blast
  have fr': "mem s' w = mem s w" if "\<not> link_word L w" for w
    using fr [of w] fri that mono by auto
  have st: "set (unlink Li X j) = set (L j) - insert X D" if "j < LISTLIMIT" for j
    using unlink_set [OF wfi that, of X] seti that by auto
  have ar': "same_arena s s'" using ari ar by (simp add: same_arena_def)
  show ?thesis using d wf1 ar' fr' st by blast
qed

lemma coalesce_finish:
  assumes wf: "wf_lists s L"
    and wfd: "wf_lists sd Ld" and ard: "same_arena s sd"
    and frd: "\<forall>w. \<not> link_word L w \<longrightarrow> mem sd w = mem s w"
    and setd: "\<forall>j<LISTLIMIT. set (Ld j) = set (L j) - D"
    and blk: "block_in_arena s M z"
    and ap: "\<forall>y. in_lists L y \<and> y \<notin> D \<longrightarrow> apart M z y (block_size s y)"
    and s5: "s5 = sd\<lparr>mem := m5\<rparr>"
    and m5: "m5 (HDRP M) = PACK z 0 OR (mem sd (HDRP M) AND 2)"
      "m5 (M + z - DSIZE) = PACK z 0 OR (mem sd (M + z - DSIZE) AND 2)"
      "\<forall>w. w \<noteq> HDRP M \<and> w \<noteq> M + z - DSIZE \<longrightarrow> m5 w = mem sd w"
    and nl: "\<not> link_word L (HDRP M)" "\<not> link_word L (M + z - DSIZE)"
  shows "\<exists>s6. insert_node s5 M z = Some s6 \<and> same_arena s s6 \<and> coalesced s s6 L Ld M z"
proof -
  have blkd: "block_in_arena sd M z" using blk ard by (simp add: block_in_arena_arena)
  note ib = block_in_block [OF blkd] and al = blk [unfolded block_in_arena_def]
  have node: "in_lists L y \<and> y \<notin> D" if "j < LISTLIMIT" "y \<in> set (Ld j)" for j y
    using that setd by (auto simp: in_lists_def)
  have bsd: "block_size sd y = block_size s y" if jy: "j < LISTLIMIT" "y \<in> set (Ld j)" for j y
  proof -
    obtain i where i: "i < LISTLIMIT" "y \<in> set (L i)"
      using node [OF jy] by (auto simp: in_lists_def)
    show ?thesis using frd header_not_link [OF wf i] by (simp add: block_size_def)
  qed
  have ap0: "\<forall>j<LISTLIMIT. \<forall>y\<in>set (Ld j). apart M z y (block_size sd y)"
    using ap node bsd by auto
  have nlM: "\<not> link_word Ld w" if w: "in_block M z w" for w
  proof
    assume "link_word Ld w"
    then obtain j y where j: "j < LISTLIMIT" "y \<in> set (Ld j)"
      and e: "w = PRED_PTR y \<or> w = SUCC_PTR y"
      by (auto simp: link_word_def)
    show False
      using ext_not_node [OF w wf_block [OF wfd j] ap0 [rule_format, OF j]] e by auto
  qed
  have m0: "\<forall>w. \<not> in_block M z w \<longrightarrow> m5 w = mem sd w"
    using m5(3) ib(1,4) by metis
  have wf5: "wf_lists s5 Ld"
    and bs5: "\<forall>j<LISTLIMIT. \<forall>y\<in>set (Ld j). block_size s5 y = block_size sd y"
    using tags_wf [where m = m5, OF wfd ap0 m0] by (simp_all add: s5)
  have ar5: "same_arena sd s5" by (simp add: s5 same_arena_def)
  have z8: "z AND 7 = 0" using al by simp
  have h5: "mem s5 (HDRP M) = PACK z 0 OR (mem sd (HDRP M) AND 2)"
    using m5(1) by (simp add: s5)
  have sz5: "block_size s5 M = z"
    using h5 size_of_pack [OF z8] by (simp add: block_size_def)
  have b5: "block_in_arena s5 M z" using blkd ar5 by (simp add: block_in_arena_arena)
  have fb: "free_block s5 (fst (select_list 0 z)) M"
    using b5 sz5 h5 alloc_of_pack [OF z8] by (simp add: free_block_def)
  have new: "apart M (block_size s5 M) y (block_size s5 y)"
    if "j < LISTLIMIT" "y \<in> set (Ld j)" for j y
    using ap0 bs5 that sz5 by auto
  have "\<exists>s6. insert_node s5 M z = Some s6 \<and>
          wf_lists s6 (Ld(fst (select_list 0 z) := M # Ld (fst (select_list 0 z)))) \<and>
          same_arena s5 s6 \<and>
          (\<forall>w. \<not> link_word Ld w \<and> w \<noteq> PRED_PTR M \<and> w \<noteq> SUCC_PTR M \<longrightarrow> mem s6 w = mem s5 w)"
    by (rule wf_insert [OF wf5 fb sz5 [symmetric]]) (rule new)
  then obtain s6 where ins: "insert_node s5 M z = Some s6"
    and wf6: "wf_lists s6 (Ld(fst (select_list 0 z) := M # Ld (fst (select_list 0 z))))"
    and ar6: "same_arena s5 s6"
    and fr6: "\<And>w. \<not> link_word Ld w \<Longrightarrow> w \<noteq> PRED_PTR M \<Longrightarrow> w \<noteq> SUCC_PTR M \<Longrightarrow>
                mem s6 w = mem s5 w"
    by blast
  note wn = block_words_neq [OF blkd]
  have t1: "mem s6 (HDRP M) = PACK z 0 OR (mem s (HDRP M) AND 2)"
    using fr6 [OF nlM [OF ib(1)] wn(1,2)] h5 frd nl(1) by simp
  have t2: "mem s6 (M + z - DSIZE) = PACK z 0 OR (mem s (M + z - DSIZE) AND 2)"
    using fr6 [OF nlM [OF ib(4)] wn(5,6)] m5(2) frd nl(2) by (simp add: s5)
  have mono: "link_word L w" if "link_word Ld w" for w
    using that setd unfolding link_word_def by blast
  have fr: "mem s6 w = mem s w" if "\<not> link_word L w" "\<not> in_block M z w" for w
  proof -
    have "w \<noteq> PRED_PTR M" "w \<noteq> SUCC_PTR M" using that(2) ib by auto
    moreover have "\<not> link_word Ld w" using that(1) mono by blast
    ultimately have "mem s6 w = mem s5 w" using fr6 by blast
    also have "\<dots> = mem sd w" using m0 that(2) by (simp add: s5)
    also have "\<dots> = mem s w" using frd that(1) by simp
    finally show ?thesis .
  qed
  have ar: "same_arena s s6" using ard ar5 ar6 by (simp add: same_arena_def)
  have "coalesced s s6 L Ld M z"
    unfolding coalesced_def using wf6 t1 t2 fr by blast
  then show ?thesis using ins ar by blast
qed

lemma stage_get:
  assumes "same_arena s si" and "\<forall>w. \<not> link_word L w \<longrightarrow> mem si w = mem s w"
    and "\<not> link_word L w" and "aligned_word s w"
  shows "GET si w = Some (mem s w)" and "aligned_word si w"
  using assms by (simp_all add: GET_aligned aligned_word_arena)

lemma footer_not_link:
  assumes wf: "wf_lists s L" and j: "j < LISTLIMIT" and x: "x \<in> set (L j)"
  shows "\<not> link_word L (x + block_size s x - DSIZE)"
  using in_block_not_link [OF assms block_in_block(4) [OF wf_block [OF assms]]]
    block_words_neq [OF wf_block [OF assms]] by simp

lemma apart_join:
  assumes "apart x sx y sy" and "apart x' sx' y sy" and "unat x' = unat x + unat sx"
    and "unat (sx + sx') = unat sx + unat sx'" and "0 < unat sy"
  shows "apart x (sx + sx') y sy"
  using assms by (auto simp: apart_def)

lemma block_join:
  assumes "block_in_arena s x sx" and "block_in_arena s x' sx'" and "unat x' = unat x + unat sx"
  shows "block_in_arena s x (sx + sx')" and "unat (sx + sx') = unat sx + unat sx'"
proof -
  have le: "unat sx + unat sx' \<le> unat (mem_max_addr s)"
    using assms by (simp add: block_in_arena_def)
  show u: "unat (sx + sx') = unat sx + unat sx'" using le by (rule unat_plus)
  show "block_in_arena s x (sx + sx')"
    using assms u by (simp add: block_in_arena_def al8_add)
qed

text \<open>
  C4.  Let the directory be well formed and \<open>B\<close> a listed block of size \<open>sz\<close>.  Its
  physical predecessor \<open>P\<close> is the block that the footer below \<open>B\<close> leads to, of size
  \<open>psz\<close>, and its physical successor \<open>N\<close>, of size \<open>nsz\<close>, begins where \<open>B\<close> ends.
  \<open>P\<close> counts as allocated, \<open>pa\<close>, when its header has the reallocation bit or the
  allocation bit set; \<open>N\<close> counts as allocated, \<open>na\<close>, when its header has the
  allocation bit set, whatever its reallocation bit.  A neighbour that does not count
  as allocated is a listed block (and header and footer of \<open>P\<close> agree on its size).
  Then \<^verbatim>\<open>coalesce(B)\<close> returns, and: if both neighbours count as allocated it returns
  \<open>B\<close> and the state is unchanged; if only \<open>N\<close> is free it returns \<open>B\<close>, merged with
  \<open>N\<close> into a block of size \<open>sz + nsz\<close>; if only \<open>P\<close> is free it returns \<open>P\<close>,
  merged with \<open>B\<close> into a block of size \<open>sz + psz\<close>; if both are free it returns
  \<open>P\<close>, merged with \<open>B\<close> and \<open>N\<close> into a block of size \<open>sz + psz + nsz\<close>.  In the
  three merging cases the absorbed blocks have left their lists, the outermost header
  and footer hold the new size with the allocation bit clear (and the reallocation bit
  the word had), the merged block is at the head of the list its size selects, the
  directory is well formed, and no word outside the merged block and the link fields of
  listed blocks has changed.
\<close>

theorem coalesce_four_cases:
  fixes s :: heap and L :: "nat \<Rightarrow> word32 list" and B :: word32
  defines "sz \<equiv> block_size s B"
  defines "psz \<equiv> mem s (B - DSIZE) AND NOT 7"
  defines "P \<equiv> B - (mem s (B - DSIZE) AND NOT 7)"
  defines "N \<equiv> B + block_size s B"
  defines "nsz \<equiv> block_size s (B + block_size s B)"
  defines "pa \<equiv> mem s (HDRP (B - (mem s (B - DSIZE) AND NOT 7))) AND 2 \<noteq> 0 \<or>
                 mem s (HDRP (B - (mem s (B - DSIZE) AND NOT 7))) AND 1 \<noteq> 0"
  defines "na \<equiv> mem s (HDRP (B + block_size s B)) AND 1 \<noteq> 0"
  assumes wf: "wf_lists s L" and B: "in_lists L B"
    and vP: "valid_word s (B - DSIZE)" "valid_word s (HDRP P)"
    and pfree: "\<not> pa \<Longrightarrow> in_lists L P \<and> block_size s P = psz"
    and nfree: "\<not> na \<Longrightarrow> in_lists L N"
  shows "\<exists>q s'. coalesce s B = Some (q, s') \<and> same_arena s s' \<and>
           (if pa \<and> na then q = B \<and> s' = s
            else if pa then q = B \<and> coalesced s s' L (unlink (unlink L B) N) B (sz + nsz)
            else if na then q = P \<and> coalesced s s' L (unlink (unlink L B) P) P (sz + psz)
            else q = P \<and>
              coalesced s s' L (unlink (unlink (unlink L B) P) N) P (sz + (psz + nsz)))"
proof -
  have P_def': "P = B - psz" and N_def': "N = B + sz" and nsz_def': "nsz = block_size s N"
    and pa_def': "pa \<longleftrightarrow> mem s (HDRP P) AND 2 \<noteq> 0 \<or> mem s (HDRP P) AND 1 \<noteq> 0"
    and na_def': "na \<longleftrightarrow> mem s (HDRP N) AND 1 \<noteq> 0"
    by (simp_all add: P_def N_def nsz_def pa_def na_def psz_def sz_def)
  obtain k where k: "k < LISTLIMIT" "B \<in> set (L k)"
    using B by (auto simp: in_lists_def)
  have Bb: "block_in_arena s B sz" using wf_block [OF wf k] by (simp add: sz_def)
  note nB = block_nat [OF Bb] and vB = block_valid [OF Bb] and iB = block_in_block [OF Bb]
  have aB: "B AND 7 = 0" "sz AND 7 = 0" using Bb by (simp_all add: block_in_arena_def)
  have apsz: "psz AND 7 = 0" unfolding psz_def by (rule al8_mask)
  have aP: "P AND 7 = 0" using aB apsz by (simp add: P_def' al8_diff)
  have a4: "(B - DSIZE) AND 3 = 0" "HDRP P AND 3 = 0"
    using al8_al4 [OF al8_diff [OF aB(1), of 8]] al4_diff [OF al8_al4 [OF aP], of 4]
    by (simp_all add: DSIZE_def HDRP_def WSIZE_def)
  have aF: "aligned_word s (B - DSIZE)" "aligned_word s (HDRP P)"
    using vP a4 by (simp_all add: aligned_word_def)
  have aHN: "aligned_word s (HDRP N)" using vB(5) by (simp add: N_def')
  have hb: "B - WSIZE = HDRP B" by (simp add: HDRP_def)
  have r0: "PREV_BLKP s B = Some P" "NEXT_BLKP s B = Some N" "GET_SIZE s (HDRP B) = Some sz"
    using aF vB by (simp_all add: PREV_BLKP_def NEXT_BLKP_def hb GET_SIZE_def GET_aligned
        P_def' N_def' psz_def sz_def block_size_def)
  have r1: "GET_ALLOC s (HDRP P) = Some (mem s (HDRP P) AND 1)"
    "GET_TAG s (HDRP P) = Some (mem s (HDRP P) AND 2)"
    "GET_ALLOC s (HDRP N) = Some (mem s (HDRP N) AND 1)"
    using aF aHN by (simp_all add: GET_ALLOC_def GET_TAG_def GET_aligned)
  show ?thesis
  proof (cases "pa \<and> na")
    case True
    then have "coalesce s B = Some (B, s)"
      using r0 r1 by (auto simp: coalesce_def pa_def' na_def')
    then show ?thesis using True by (simp add: same_arena_def)
  next
    case False
    have nlHB: "\<not> link_word L (HDRP B)" using header_not_link [OF wf k] .
    have ar0: "same_arena s s" by (simp add: same_arena_def)
    have "\<exists>s1. delete_node s B = Some s1 \<and> wf_lists s1 (unlink L B) \<and> same_arena s s1 \<and>
            (\<forall>w. \<not> link_word L w \<longrightarrow> mem s1 w = mem s w) \<and>
            (\<forall>j<LISTLIMIT. set (unlink L B j) = set (L j) - insert B {})"
      by (rule delete_stage [OF wf ar0 _ _ B]) simp_all
    then obtain s1 where d1: "delete_node s B = Some s1" and wf1: "wf_lists s1 (unlink L B)"
      and ar1: "same_arena s s1" and fr1: "\<forall>w. \<not> link_word L w \<longrightarrow> mem s1 w = mem s w"
      and st1: "\<forall>j<LISTLIMIT. set (unlink L B j) = set (L j) - insert B {}"
      by blast
    have hB: "mem s (HDRP B) AND NOT 7 = sz" by (simp add: sz_def block_size_def)
    have n1: "NEXT_BLKP s1 B = Some N"
      using stage_get(1) [OF ar1 fr1 nlHB vB(2)] hB
      by (simp add: NEXT_BLKP_def hb GET_SIZE_def N_def')
    show ?thesis
    proof (cases pa)
      case True
      then have nna: "\<not> na" using False by simp
      obtain kn where kn: "kn < LISTLIMIT" "N \<in> set (L kn)"
        using nfree [OF nna] by (auto simp: in_lists_def)
      have Nb: "block_in_arena s N nsz" using wf_block [OF wf kn] by (simp add: nsz_def')
      have uN: "unat N = unat B + unat sz" using nB(4) by (simp add: N_def')
      have NB: "N \<noteq> B" using uN nB(8) by auto
      have nlHN: "\<not> link_word L (HDRP N)" using header_not_link [OF wf kn] .
      have nlFN: "\<not> link_word L (N + nsz - DSIZE)"
        using footer_not_link [OF wf kn] by (simp add: nsz_def')
      note bj = block_join [OF Bb Nb uN]
      let ?z = "sz + nsz"
      have "\<exists>s2. delete_node s1 N = Some s2 \<and> wf_lists s2 (unlink (unlink L B) N) \<and>
              same_arena s s2 \<and> (\<forall>w. \<not> link_word L w \<longrightarrow> mem s2 w = mem s w) \<and>
              (\<forall>j<LISTLIMIT. set (unlink (unlink L B) N j) = set (L j) - insert N (insert B {}))"
        using NB by (intro delete_stage [OF wf1 ar1 fr1 st1 nfree [OF nna]]) simp
      then obtain s2 where d2: "delete_node s1 N = Some s2"
        and wf2: "wf_lists s2 (unlink (unlink L B) N)" and ar2: "same_arena s s2"
        and fr2: "\<forall>w. \<not> link_word L w \<longrightarrow> mem s2 w = mem s w"
        and st2: "\<forall>j<LISTLIMIT. set (unlink (unlink L B) N j) = set (L j) - insert N (insert B {})"
        by blast
      have n2: "NEXT_BLKP s2 B = Some N"
        using stage_get(1) [OF ar2 fr2 nlHB vB(2)] hB
        by (simp add: NEXT_BLKP_def hb GET_SIZE_def N_def')
      have g2: "GET_SIZE s2 (HDRP N) = Some nsz"
        using stage_get(1) [OF ar2 fr2 nlHN aHN]
        by (simp add: GET_SIZE_def nsz_def' block_size_def)
      have blk2: "block_in_arena s2 B ?z" using bj(1) ar2 by (simp add: block_in_arena_arena)
      define m5 where "m5 = (mem s2)
          (HDRP B := PACK ?z 0 OR (mem s2 (HDRP B) AND 2),
           B + ?z - DSIZE := PACK ?z 0 OR (mem s2 (B + ?z - DSIZE) AND 2))"
      obtain s3 where e: "PUT s2 (HDRP B) (PACK ?z 0) = Some s3"
        "FTRP s3 B = Some (B + ?z - DSIZE)"
        "PUT s3 (B + ?z - DSIZE) (PACK ?z 0) = Some (s2\<lparr>mem := m5\<rparr>)"
        using mark_tags [OF blk2, of 0] unfolding m5_def by blast
      have feq: "B + ?z - DSIZE = N + nsz - DSIZE" by (simp add: N_def' add.assoc)
      have ap: "\<forall>y. in_lists L y \<and> y \<notin> insert N (insert B {}) \<longrightarrow>
                  apart B ?z y (block_size s y)"
      proof (intro allI impI)
        fix y assume y: "in_lists L y \<and> y \<notin> insert N (insert B {})"
        then obtain j where j: "j < LISTLIMIT" "y \<in> set (L j)" by (auto simp: in_lists_def)
        have "apart B sz y (block_size s y)"
          using wf_apart [OF wf k(1) j(1) k(2) j(2)] y by (auto simp: sz_def)
        moreover have "apart N nsz y (block_size s y)"
          using wf_apart [OF wf kn(1) j(1) kn(2) j(2)] y by (auto simp: nsz_def')
        moreover have "0 < unat (block_size s y)"
          using block_nat(8) [OF wf_block [OF wf j]] by simp
        ultimately show "apart B ?z y (block_size s y)"
          using uN bj(2) by (intro apart_join)
      qed
      note wn = block_words_neq [OF bj(1)]
      have "\<exists>s6. insert_node (s2\<lparr>mem := m5\<rparr>) B ?z = Some s6 \<and> same_arena s s6 \<and>
              coalesced s s6 L (unlink (unlink L B) N) B ?z"
      proof (rule coalesce_finish [OF wf wf2 ar2 fr2 st2 bj(1) ap refl])
        show "m5 (HDRP B) = PACK ?z 0 OR (mem s2 (HDRP B) AND 2)"
          using wn(4) by (simp add: m5_def)
        show "m5 (B + ?z - DSIZE) = PACK ?z 0 OR (mem s2 (B + ?z - DSIZE) AND 2)"
          by (simp add: m5_def)
        show "\<forall>w. w \<noteq> HDRP B \<and> w \<noteq> B + ?z - DSIZE \<longrightarrow> m5 w = mem s2 w"
          by (simp add: m5_def)
        show "\<not> link_word L (HDRP B)" by (rule nlHB)
        show "\<not> link_word L (B + ?z - DSIZE)" unfolding feq by (rule nlFN)
      qed
      then obtain s6 where i6: "insert_node (s2\<lparr>mem := m5\<rparr>) B ?z = Some s6"
        and ar6: "same_arena s s6" and co6: "coalesced s s6 L (unlink (unlink L B) N) B ?z"
        by blast
      have "coalesce s B = Some (B, s6)"
        using r0 r1 True nna d1 n1 d2 n2 g2 e i6 by (simp add: coalesce_def pa_def' na_def')
      then show ?thesis using True nna ar6 co6 by auto
    next
      case pf: False
      obtain kp where kp: "kp < LISTLIMIT" "P \<in> set (L kp)" and bsP: "block_size s P = psz"
        using pfree [OF pf] by (auto simp: in_lists_def)
      have inP: "in_lists L P" using pfree [OF pf] by simp
      have Pb: "block_in_arena s P psz" using wf_block [OF wf kp] bsP by simp
      note nP = block_nat [OF Pb]
      have PB: "P + psz = B" by (simp add: P_def')
      have uB: "unat B = unat P + unat psz" using nP(4) PB by simp
      have PneB: "P \<noteq> B" using uB nP(8) by auto
      have nlHP: "\<not> link_word L (HDRP P)" using header_not_link [OF wf kp] .
      have nlFP: "\<not> link_word L (B - DSIZE)"
        using footer_not_link [OF wf kp] bsP PB by simp
      have nlFB: "\<not> link_word L (B + sz - DSIZE)"
        using footer_not_link [OF wf k] by (simp add: sz_def)
      have hP: "mem s (HDRP P) AND NOT 7 = psz" "mem s (HDRP P) AND 2 = 0"
        using bsP pf by (simp_all add: block_size_def pa_def')
      have fP: "mem s (B - DSIZE) AND NOT 7 = psz" by (simp add: psz_def)
      have u8: "unat (B - DSIZE) = unat B - 8" "8 \<le> unat B"
        using uB nP(8) unat_minus8 [of B] by (simp_all add: DSIZE_def)
      have ne: "B - DSIZE \<noteq> B + sz - DSIZE" "B - DSIZE \<noteq> HDRP P"
        "HDRP P \<noteq> B + sz - DSIZE" "HDRP P \<noteq> HDRP B"
        using uB nP(1,8) nB(1,8) u8(2)
        by (intro neq_unat; simp add: u8(1) nP(2) nB(2,5))+
      have "\<exists>s2. delete_node s1 P = Some s2 \<and> wf_lists s2 (unlink (unlink L B) P) \<and>
              same_arena s s2 \<and> (\<forall>w. \<not> link_word L w \<longrightarrow> mem s2 w = mem s w) \<and>
              (\<forall>j<LISTLIMIT. set (unlink (unlink L B) P j) = set (L j) - insert P (insert B {}))"
        using PneB by (intro delete_stage [OF wf1 ar1 fr1 st1 inP]) simp
      then obtain s2 where d2: "delete_node s1 P = Some s2"
        and wf2: "wf_lists s2 (unlink (unlink L B) P)" and ar2: "same_arena s s2"
        and fr2: "\<forall>w. \<not> link_word L w \<longrightarrow> mem s2 w = mem s w"
        and st2: "\<forall>j<LISTLIMIT. set (unlink (unlink L B) P j) = set (L j) - insert P (insert B {})"
        by blast
      have p1: "PREV_BLKP s1 B = Some P"
        using stage_get(1) [OF ar1 fr1 nlFP aF(1)] fP
        by (simp add: PREV_BLKP_def GET_SIZE_def P_def')
      have p2: "PREV_BLKP s2 B = Some P"
        using stage_get(1) [OF ar2 fr2 nlFP aF(1)] fP
        by (simp add: PREV_BLKP_def GET_SIZE_def P_def')
      show ?thesis
      proof (cases na)
        case True
        let ?z = "sz + psz"
        have zc: "?z = psz + sz" by (simp add: add.commute)
        note bj = block_join [OF Pb Bb uB, folded zc]
        have feq: "P + ?z - DSIZE = B + sz - DSIZE" by (simp add: P_def')
        have g2: "GET_SIZE s2 (HDRP P) = Some psz"
          using stage_get(1) [OF ar2 fr2 nlHP aF(2)] hP by (simp add: GET_SIZE_def)
        have f2: "FTRP s2 B = Some (B + sz - DSIZE)"
          using stage_get(1) [OF ar2 fr2 nlHB vB(2)] hB by (simp add: FTRP_def GET_SIZE_def)
        define s3 where "s3 = s2\<lparr>mem := (mem s2)
            (B + sz - DSIZE := PACK ?z 0 OR (mem s2 (B + sz - DSIZE) AND 2))\<rparr>"
        define s5 where "s5 = s3\<lparr>mem := (mem s3)
            (HDRP P := PACK ?z 0 OR (mem s3 (HDRP P) AND 2))\<rparr>"
        have a2: "aligned_word s2 (B + sz - DSIZE)" "aligned_word s2 (HDRP P)"
          "aligned_word s2 (B - DSIZE)"
          using vB(4) aF ar2 by (simp_all add: aligned_word_arena)
        have e1: "PUT s2 (B + sz - DSIZE) (PACK ?z 0) = Some s3"
          using a2 by (simp add: PUT_aligned s3_def)
        have m2: "mem s2 (B - DSIZE) = mem s (B - DSIZE)" using fr2 nlFP by simp
        have p3: "PREV_BLKP s3 B = Some P"
          using a2 ne m2 fP by (simp add: PREV_BLKP_def GET_SIZE_def GET_aligned s3_def P_def')
        have e2: "PUT s3 (HDRP P) (PACK ?z 0) = Some s5"
          using a2 by (simp add: PUT_aligned s3_def s5_def)
        have p5: "PREV_BLKP s5 B = Some P"
          using a2 ne m2 fP
          by (simp add: PREV_BLKP_def GET_SIZE_def GET_aligned s3_def s5_def P_def')
        have s5': "s5 = s2\<lparr>mem := mem s5\<rparr>" by (simp add: s5_def s3_def)
        have ap: "\<forall>y. in_lists L y \<and> y \<notin> insert P (insert B {}) \<longrightarrow>
                    apart P ?z y (block_size s y)"
        proof (intro allI impI)
          fix y assume y: "in_lists L y \<and> y \<notin> insert P (insert B {})"
          then obtain j where j: "j < LISTLIMIT" "y \<in> set (L j)" by (auto simp: in_lists_def)
          have "apart B sz y (block_size s y)"
            using wf_apart [OF wf k(1) j(1) k(2) j(2)] y by (auto simp: sz_def)
          moreover have "apart P psz y (block_size s y)"
            using wf_apart [OF wf kp(1) j(1) kp(2) j(2)] y bsP by auto
          moreover have "0 < unat (block_size s y)"
            using block_nat(8) [OF wf_block [OF wf j]] by simp
          ultimately show "apart P ?z y (block_size s y)"
            unfolding zc using uB bj(2) [unfolded zc] by (intro apart_join)
        qed
        have "\<exists>s6. insert_node s5 P ?z = Some s6 \<and> same_arena s s6 \<and>
                coalesced s s6 L (unlink (unlink L B) P) P ?z"
        proof (rule coalesce_finish [OF wf wf2 ar2 fr2 st2 bj(1) ap s5'])
          show "mem s5 (HDRP P) = PACK ?z 0 OR (mem s2 (HDRP P) AND 2)"
            using ne by (simp add: s5_def s3_def)
          show "mem s5 (P + ?z - DSIZE) = PACK ?z 0 OR (mem s2 (P + ?z - DSIZE) AND 2)"
            unfolding feq using ne by (simp add: s5_def s3_def)
          show "\<forall>w. w \<noteq> HDRP P \<and> w \<noteq> P + ?z - DSIZE \<longrightarrow> mem s5 w = mem s2 w"
            unfolding feq by (simp add: s5_def s3_def)
          show "\<not> link_word L (HDRP P)" by (rule nlHP)
          show "\<not> link_word L (P + ?z - DSIZE)" unfolding feq by (rule nlFB)
        qed
        then obtain s6 where i6: "insert_node s5 P ?z = Some s6"
          and ar6: "same_arena s s6" and co6: "coalesced s s6 L (unlink (unlink L B) P) P ?z"
          by blast
        have "coalesce s B = Some (P, s6)"
          using r0 r1 pf True d1 p1 d2 p2 g2 f2 e1 p3 e2 p5 i6
          by (simp add: coalesce_def pa_def' na_def')
        then show ?thesis using pf True ar6 co6 by auto
      next
        case nf: False
        obtain kn where kn: "kn < LISTLIMIT" "N \<in> set (L kn)"
          using nfree [OF nf] by (auto simp: in_lists_def)
        have Nb: "block_in_arena s N nsz" using wf_block [OF wf kn] by (simp add: nsz_def')
        note nN = block_nat [OF Nb]
        have uN: "unat N = unat B + unat sz" using nB(4) by (simp add: N_def')
        have NB: "N \<notin> insert P (insert B {})" using uN uB nB(8) nP(8) by auto
        have nlHN: "\<not> link_word L (HDRP N)" using header_not_link [OF wf kn] .
        have nlFN: "\<not> link_word L (N + nsz - DSIZE)"
          using footer_not_link [OF wf kn] by (simp add: nsz_def')
        have hN: "mem s (HDRP N) AND NOT 7 = nsz" by (simp add: nsz_def' block_size_def)
        let ?z = "sz + (psz + nsz)"
        have zc: "?z = psz + (sz + nsz)" by (simp add: add.left_commute)
        note bn = block_join [OF Bb Nb uN]
        note bj = block_join [OF Pb bn(1) uB, folded zc]
        have feq: "P + ?z - DSIZE = N + nsz - DSIZE" by (simp add: P_def' N_def' add.assoc)
        have ne': "HDRP P \<noteq> HDRP N" "HDRP P \<noteq> N + nsz - DSIZE"
          "B - DSIZE \<noteq> N + nsz - DSIZE"
          using uB uN nP(1,8) nB(1,8) nN(1,8) u8(2)
          by (intro neq_unat; simp add: u8(1) nP(2) nN(2,5))+
        have "\<exists>s3. delete_node s2 N = Some s3 \<and>
                wf_lists s3 (unlink (unlink (unlink L B) P) N) \<and>
                same_arena s s3 \<and> (\<forall>w. \<not> link_word L w \<longrightarrow> mem s3 w = mem s w) \<and>
                (\<forall>j<LISTLIMIT. set (unlink (unlink (unlink L B) P) N j) =
                   set (L j) - insert N (insert P (insert B {})))"
          using NB by (intro delete_stage [OF wf2 ar2 fr2 st2 nfree [OF nf]])
        then obtain s3 where d3: "delete_node s2 N = Some s3"
          and wf3: "wf_lists s3 (unlink (unlink (unlink L B) P) N)" and ar3: "same_arena s s3"
          and fr3: "\<forall>w. \<not> link_word L w \<longrightarrow> mem s3 w = mem s w"
          and st3: "\<forall>j<LISTLIMIT. set (unlink (unlink (unlink L B) P) N j) =
                   set (L j) - insert N (insert P (insert B {}))"
          by blast
        have n2: "NEXT_BLKP s2 B = Some N"
          using stage_get(1) [OF ar2 fr2 nlHB vB(2)] hB
          by (simp add: NEXT_BLKP_def hb GET_SIZE_def N_def')
        have p3: "PREV_BLKP s3 B = Some P"
          using stage_get(1) [OF ar3 fr3 nlFP aF(1)] fP
          by (simp add: PREV_BLKP_def GET_SIZE_def P_def')
        have n3: "NEXT_BLKP s3 B = Some N"
          using stage_get(1) [OF ar3 fr3 nlHB vB(2)] hB
          by (simp add: NEXT_BLKP_def hb GET_SIZE_def N_def')
        have g3: "GET_SIZE s3 (HDRP P) = Some psz" "GET_SIZE s3 (HDRP N) = Some nsz"
          using stage_get(1) [OF ar3 fr3 nlHP aF(2)] stage_get(1) [OF ar3 fr3 nlHN aHN] hP hN
          by (simp_all add: GET_SIZE_def)
        define s4 where "s4 = s3\<lparr>mem := (mem s3)
            (HDRP P := PACK ?z 0 OR (mem s3 (HDRP P) AND 2))\<rparr>"
        define s5 where "s5 = s4\<lparr>mem := (mem s4)
            (N + nsz - DSIZE := PACK ?z 0 OR (mem s4 (N + nsz - DSIZE) AND 2))\<rparr>"
        have a3: "aligned_word s3 (HDRP P)" "aligned_word s3 (B - DSIZE)"
          "aligned_word s3 (HDRP B)" "aligned_word s3 (HDRP N)"
          "aligned_word s3 (N + nsz - DSIZE)"
          using aF vB(2) aHN block_valid(4) [OF Nb] ar3 by (simp_all add: aligned_word_arena)
        have m3: "mem s3 (B - DSIZE) = mem s (B - DSIZE)" "mem s3 (HDRP B) = mem s (HDRP B)"
          "mem s3 (HDRP N) = mem s (HDRP N)"
          using fr3 nlFP nlHB nlHN by simp_all
        have e1: "PUT s3 (HDRP P) (PACK ?z 0) = Some s4"
          using a3 by (simp add: PUT_aligned s4_def)
        have n4: "NEXT_BLKP s4 B = Some N"
          using a3 ne m3 hB by (simp add: NEXT_BLKP_def hb GET_SIZE_def GET_aligned s4_def N_def')
        have f4: "FTRP s4 N = Some (N + nsz - DSIZE)"
          using a3 ne' m3 hN by (simp add: FTRP_def GET_SIZE_def GET_aligned s4_def)
        have e2: "PUT s4 (N + nsz - DSIZE) (PACK ?z 0) = Some s5"
          using a3 by (simp add: PUT_aligned s4_def s5_def)
        have p5: "PREV_BLKP s5 B = Some P"
          using a3 ne ne' m3 fP
          by (simp add: PREV_BLKP_def GET_SIZE_def GET_aligned s4_def s5_def P_def')
        have s5': "s5 = s3\<lparr>mem := mem s5\<rparr>" by (simp add: s5_def s4_def)
        have ap: "\<forall>y. in_lists L y \<and> y \<notin> insert N (insert P (insert B {})) \<longrightarrow>
                    apart P ?z y (block_size s y)"
        proof (intro allI impI)
          fix y assume y: "in_lists L y \<and> y \<notin> insert N (insert P (insert B {}))"
          then obtain j where j: "j < LISTLIMIT" "y \<in> set (L j)" by (auto simp: in_lists_def)
          have 1: "apart B sz y (block_size s y)"
            using wf_apart [OF wf k(1) j(1) k(2) j(2)] y by (auto simp: sz_def)
          have 2: "apart P psz y (block_size s y)"
            using wf_apart [OF wf kp(1) j(1) kp(2) j(2)] y bsP by auto
          have 3: "apart N nsz y (block_size s y)"
            using wf_apart [OF wf kn(1) j(1) kn(2) j(2)] y by (auto simp: nsz_def')
          have 4: "0 < unat (block_size s y)"
            using block_nat(8) [OF wf_block [OF wf j]] by simp
          have "apart B (sz + nsz) y (block_size s y)"
            using 1 3 uN bn(2) 4 by (rule apart_join)
          with 2 show "apart P ?z y (block_size s y)"
            unfolding zc using uB bj(2) [unfolded zc] 4 by (rule apart_join)
        qed
        have "\<exists>s6. insert_node s5 P ?z = Some s6 \<and> same_arena s s6 \<and>
                coalesced s s6 L (unlink (unlink (unlink L B) P) N) P ?z"
        proof (rule coalesce_finish [OF wf wf3 ar3 fr3 st3 bj(1) ap s5'])
          show "mem s5 (HDRP P) = PACK ?z 0 OR (mem s3 (HDRP P) AND 2)"
            using ne' by (simp add: s5_def s4_def)
          show "mem s5 (P + ?z - DSIZE) = PACK ?z 0 OR (mem s3 (P + ?z - DSIZE) AND 2)"
            unfolding feq using ne' by (simp add: s5_def s4_def)
          show "\<forall>w. w \<noteq> HDRP P \<and> w \<noteq> P + ?z - DSIZE \<longrightarrow> mem s5 w = mem s3 w"
            unfolding feq by (simp add: s5_def s4_def)
          show "\<not> link_word L (HDRP P)" by (rule nlHP)
          show "\<not> link_word L (P + ?z - DSIZE)" unfolding feq by (rule nlFN)
        qed
        then obtain s6 where i6: "insert_node s5 P ?z = Some s6"
          and ar6: "same_arena s s6"
          and co6: "coalesced s s6 L (unlink (unlink (unlink L B) P) N) P ?z"
          by blast
        have "coalesce s B = Some (P, s6)"
          using r0 r1 pf nf d1 p1 d2 n2 d3 p3 n3 g3 e1 n4 f4 e2 p5 i6
          by (simp add: coalesce_def pa_def' na_def')
        then show ?thesis using pf nf ar6 co6 by auto
      qed
    qed
  qed
qed

text \<open>
  The theorem at work: \<^verbatim>\<open>coalesce(b)\<close> in the state where \<^verbatim>\<open>mm_free(b)\<close> calls it, both
  neighbours \<open>a\<close> and \<open>c\<close> of \<open>b\<close> being free.  The three blocks become one free
  block of 64 bytes at \<open>a\<close>, alone in list 6.
\<close>

theorem coalesce_four_cases_witness:
  "\<exists>s'. coalesce heap_b_inserted 0x1028 = Some (0x1010, s') \<and>
     same_arena heap_b_inserted s' \<and>
     wf_lists s' ((\<lambda>_. [])(6 := [0x1010])) \<and>
     mem s' (HDRP 0x1010) = 64 \<and> mem s' (0x1010 + 64 - DSIZE) = 64"
proof -
  let ?s = heap_b_inserted
  let ?L = "(\<lambda>_. [])(4 := [0x1028, 0x1010, 0x1038 :: word32])"
  have sl: "select_list 0 16 = (4, 1)" "select_list 0 24 = (4, 1)" "select_list 0 64 = (6, 1)"
    by (simp_all add: select_list.simps LISTLIMIT_def)
  have hm: "mem_start_brk ?s = 0x1000" "mem_max_addr ?s = 0x101000"
    "segregated_free_lists ?s = (\<lambda>_. 0)(4 := 0x1028)"
    "mem ?s (HDRP 0x1028) = 16" "mem ?s (HDRP 0x1010) = 24" "mem ?s (HDRP 0x1038) = 24"
    "mem ?s (PRED_PTR 0x1028) = 0x1010" "mem ?s (SUCC_PTR 0x1028) = 0"
    "mem ?s (PRED_PTR 0x1010) = 0x1038" "mem ?s (SUCC_PTR 0x1010) = 0x1028"
    "mem ?s (PRED_PTR 0x1038) = 0" "mem ?s (SUCC_PTR 0x1038) = 0x1010"
    "mem ?s (0x1028 - DSIZE) = 24" "mem ?s (0x1050 - DSIZE) = 24"
    by (simp_all add: heap_b_inserted_def HDRP_def WSIZE_def DSIZE_def SUCC_PTR_def PRED_PTR_def)
  have bs: "block_size ?s 0x1028 = 16" "block_size ?s 0x1010 = 24" "block_size ?s 0x1038 = 24"
    by (simp_all add: block_size_def hm)
  have fb: "free_block ?s 4 0x1028" "free_block ?s 4 0x1010" "free_block ?s 4 0x1038"
    by (simp_all add: free_block_def block_in_arena_def bs sl hm)
  have wf: "wf_lists ?s ?L"
    by (auto simp: wf_lists_def fb hm bs apart_def)
  have B: "in_lists ?L 0x1028" by (simp add: in_lists_def LISTLIMIT_def)
  have ad: "0x1028 - (mem ?s (0x1028 - DSIZE) AND NOT 7) = 0x1010"
    "0x1028 + block_size ?s 0x1028 = 0x1038"
    by (simp_all add: hm bs)
  have vP: "valid_word ?s (0x1028 - DSIZE)"
    "valid_word ?s (HDRP (0x1028 - (mem ?s (0x1028 - DSIZE) AND NOT 7)))"
    unfolding ad by (simp_all add: valid_word_def hm DSIZE_def HDRP_def WSIZE_def)
  have pf: "in_lists ?L (0x1028 - (mem ?s (0x1028 - DSIZE) AND NOT 7)) \<and>
      block_size ?s (0x1028 - (mem ?s (0x1028 - DSIZE) AND NOT 7)) =
      mem ?s (0x1028 - DSIZE) AND NOT 7"
    unfolding ad by (simp add: in_lists_def LISTLIMIT_def bs hm)
  have nf: "in_lists ?L (0x1028 + block_size ?s 0x1028)"
    unfolding ad by (simp add: in_lists_def LISTLIMIT_def)
  have Leq: "unlink (unlink (unlink ?L 0x1028) 0x1010) 0x1038 = (\<lambda>_. [])"
    by (auto simp: unlink_def fun_eq_iff)
  show ?thesis
    using coalesce_four_cases [OF wf B vP pf nf]
    by (auto simp: ad bs sl hm coalesced_def Leq PACK_def)
qed

end
